theory Spec2Isabelle
  imports Main "HOL-Library.Multiset"
begin

section \<open>Python values used by the two marketplace scripts\<close>

text \<open>
  Strings are byte lists (\<open>string\<close>); text outside ASCII is its UTF-8 encoding. The
  operations the scripts apply to strings (equality, membership in a list, splitting at
  \<open>"."\<close>, deleting everything that is not one of \<open>0\<close>..\<open>9\<close>) give the same result on
  the UTF-8 bytes as on Python's code points, since no byte of a multi-byte sequence is
  an ASCII character. \<open>int\<close>, which reads blanks and digits of every script, decodes the
  bytes to code points first.

  A spreadsheet cell is \<open>None\<close> (what \<open>dict.get\<close> returns for a missing column), a
  \<open>str\<close> or an \<open>int\<close>. Float cells are not modelled. An \<open>int\<close> cell is a spreadsheet
  number, of far fewer digits than the 4300 above which \<open>str\<close> of an \<open>int\<close> is refused.

  Only subclasses of \<open>Exception\<close> are modelled as errors.
\<close>

datatype py_error =
    ValueError | TypeError | AttributeError | IndexError
  | ReadTimeout | ConnectionError | HTTPError | OtherException

datatype pyval = PNone | PStr string | PInt int

type_synonym watch = "string \<rightharpoonup> pyval"

definition dict_get :: "watch \<Rightarrow> string \<Rightarrow> pyval" where
  "dict_get d k = (case d k of None \<Rightarrow> PNone | Some v \<Rightarrow> v)"

text \<open>
  The three column names the scripts read, in UTF-8: the Russian words for code (three
  Cyrillic letters), quantity (ten letters) and price (four letters).
\<close>

definition Kod :: string where
  "Kod = [CHR 0xD0, CHR 0x9A, CHR 0xD0, CHR 0xBE, CHR 0xD0, CHR 0xB4]"

definition Kolichestvo :: string where
  "Kolichestvo = [CHR 0xD0, CHR 0x9A, CHR 0xD0, CHR 0xBE, CHR 0xD0, CHR 0xBB, CHR 0xD0, CHR 0xB8,
     CHR 0xD1, CHR 0x87, CHR 0xD0, CHR 0xB5, CHR 0xD1, CHR 0x81, CHR 0xD1, CHR 0x82,
     CHR 0xD0, CHR 0xB2, CHR 0xD0, CHR 0xBE]"

definition Tsena :: string where
  "Tsena = [CHR 0xD0, CHR 0xA6, CHR 0xD0, CHR 0xB5, CHR 0xD0, CHR 0xBD, CHR 0xD0, CHR 0xB0]"

text \<open>The currency suffix of the price column (three Cyrillic letters), in UTF-8.\<close>

definition rub :: string where
  "rub = [CHR 0xD1, CHR 0x80, CHR 0xD1, CHR 0x83, CHR 0xD0, CHR 0xB1]"

subsection \<open>\<open>str(x)\<close>\<close>

definition is_digit :: "char \<Rightarrow> bool" where
  "is_digit c \<longleftrightarrow> 48 \<le> (of_char c :: nat) \<and> (of_char c :: nat) \<le> 57"

definition digit_val :: "char \<Rightarrow> nat" where
  "digit_val c = of_char c - 48"

definition digit_char :: "nat \<Rightarrow> char" where
  "digit_char d = char_of (48 + d)"

fun string_of_nat :: "nat \<Rightarrow> string" where
  "string_of_nat n =
     (if n < 10 then [digit_char n]
      else string_of_nat (n div 10) @ [digit_char (n mod 10)])"

declare string_of_nat.simps [simp del]

fun py_str :: "pyval \<Rightarrow> string" where
  "py_str PNone = ''None''"
| "py_str (PStr s) = s"
| "py_str (PInt i) =
     (if i < 0 then CHR ''-'' # string_of_nat (nat (- i)) else string_of_nat (nat i))"

subsection \<open>\<open>int(x)\<close>\<close>

text \<open>
  \<open>int\<close> of a string, as CPython 3.11 computes it with its default settings (Unicode 14
  character database, at most 4300 digits in a conversion). The string is first brought
  to ASCII, character by character: a character below 127 stays; any other blank
  becomes a space; any other decimal digit becomes the ASCII digit of its value;
  anything else becomes \<open>?\<close>. The ASCII text is then read: blanks are skipped at both
  ends, then comes an optional sign, then decimal digits, where single underscores may
  stand between two digits. Anything else, and a numeral of more than 4300 digits, is a
  \<open>ValueError\<close>.
\<close>

text \<open>
  The code points of a string, from its UTF-8 bytes: the lead byte tells how many bytes
  follow, and each of them adds six bits. (Byte sequences that are not UTF-8 do not occur
  as the text of a Python string.)
\<close>

definition utf8_extra :: "nat \<Rightarrow> nat" where
  "utf8_extra lead =
     (if lead < 0x80 then 0 else if lead < 0xE0 then 1 else if lead < 0xF0 then 2 else 3)"

definition utf8_lead_bits :: "nat \<Rightarrow> nat" where
  "utf8_lead_bits lead =
     (if lead < 0x80 then lead else if lead < 0xE0 then lead mod 32
      else if lead < 0xF0 then lead mod 16 else lead mod 8)"

function utf8_decode :: "string \<Rightarrow> nat list" where
  "utf8_decode [] = []"
| "utf8_decode (b # bs) =
     foldl (\<lambda>cp c. cp * 64 + of_char c mod 64) (utf8_lead_bits (of_char b))
       (take (utf8_extra (of_char b)) bs)
     # utf8_decode (drop (utf8_extra (of_char b)) bs)"
  by pat_completeness auto
termination
  by (relation "measure length") auto

text \<open>The blanks of Unicode (\<open>str.isspace\<close> on one character).\<close>

definition unicode_space :: "nat \<Rightarrow> bool" where
  "unicode_space cp \<longleftrightarrow>
     cp \<in> set [0x09, 0x0A, 0x0B, 0x0C, 0x0D, 0x1C, 0x1D, 0x1E, 0x1F, 0x20, 0x85, 0xA0,
                0x1680, 0x2028, 0x2029, 0x202F, 0x205F, 0x3000]
     \<or> (0x2000 \<le> cp \<and> cp \<le> 0x200A)"

text \<open>
  The decimal digits of Unicode 14 come in 66 runs of ten consecutive code points, the
  digits zero to nine of one script; \<open>decimal_zeros\<close> lists the zero of each run.
\<close>

definition decimal_zeros :: "nat list" where
  "decimal_zeros =
     [0x30, 0x660, 0x6F0, 0x7C0, 0x966, 0x9E6, 0xA66, 0xAE6, 0xB66, 0xBE6, 0xC66, 0xCE6,
      0xD66, 0xDE6, 0xE50, 0xED0, 0xF20, 0x1040, 0x1090, 0x17E0, 0x1810, 0x1946, 0x19D0,
      0x1A80, 0x1A90, 0x1B50, 0x1BB0, 0x1C40, 0x1C50, 0xA620, 0xA8D0, 0xA900, 0xA9D0,
      0xA9F0, 0xAA50, 0xABF0, 0xFF10, 0x104A0, 0x10D30, 0x11066, 0x110F0, 0x11136,
      0x111D0, 0x112F0, 0x11450, 0x114D0, 0x11650, 0x116C0, 0x11730, 0x118E0, 0x11950,
      0x11C50, 0x11D50, 0x11DA0, 0x16A60, 0x16AC0, 0x16B50, 0x1D7CE, 0x1D7D8, 0x1D7E2,
      0x1D7EC, 0x1D7F6, 0x1E140, 0x1E2F0, 0x1E950, 0x1FBF0]"

definition unicode_decimal :: "nat \<Rightarrow> nat option" where
  "unicode_decimal cp =
     (case find (\<lambda>z. z \<le> cp \<and> cp < z + 10) decimal_zeros of
        None \<Rightarrow> None
      | Some z \<Rightarrow> Some (cp - z))"

definition to_ascii_char :: "nat \<Rightarrow> char" where
  "to_ascii_char cp =
     (if cp < 127 then char_of cp
      else if unicode_space cp then CHR '' ''
      else (case unicode_decimal cp of
              Some d \<Rightarrow> digit_char d
            | None \<Rightarrow> CHR ''?''))"

definition to_ascii_str :: "string \<Rightarrow> string" where
  "to_ascii_str s = map to_ascii_char (utf8_decode s)"

text \<open>The blanks that are skipped in the ASCII text: tab to carriage return, and space.\<close>

definition is_space :: "char \<Rightarrow> bool" where
  "is_space c \<longleftrightarrow>
     (9 \<le> (of_char c :: nat) \<and> (of_char c :: nat) \<le> 13) \<or> (of_char c :: nat) = 32"

definition strip :: "string \<Rightarrow> string" where
  "strip s = rev (dropWhile is_space (rev (dropWhile is_space s)))"

fun digits_value :: "nat \<Rightarrow> string \<Rightarrow> nat option" where
  "digits_value acc [] = Some acc"
| "digits_value acc [c] =
     (if is_digit c then Some (10 * acc + digit_val c) else None)"
| "digits_value acc (c # d # ds) =
     (if is_digit c then digits_value (10 * acc + digit_val c) (d # ds)
      else if c = CHR ''_'' \<and> is_digit d then digits_value (10 * acc + digit_val d) ds
      else None)"

definition unsigned_value :: "string \<Rightarrow> nat option" where
  "unsigned_value s =
     (case s of [] \<Rightarrow> None
      | c # cs \<Rightarrow> if is_digit c then digits_value (digit_val c) cs else None)"

definition max_str_digits :: nat where
  "max_str_digits = 4300"

definition ascii_int :: "string \<Rightarrow> int option" where
  "ascii_int s =
     (if max_str_digits < length (filter is_digit s) then None
      else (case strip s of
              [] \<Rightarrow> None
            | c # cs \<Rightarrow>
                if c = CHR ''-'' then map_option (\<lambda>n. - int n) (unsigned_value cs)
                else if c = CHR ''+'' then map_option int (unsigned_value cs)
                else map_option int (unsigned_value (c # cs))))"

definition py_int_str :: "string \<Rightarrow> int option" where
  "py_int_str s = ascii_int (to_ascii_str s)"

fun py_int :: "pyval \<Rightarrow> py_error + int" where
  "py_int PNone = Inl TypeError"
| "py_int (PInt i) = Inr i"
| "py_int (PStr s) = (case py_int_str s of None \<Rightarrow> Inl ValueError | Some i \<Rightarrow> Inr i)"

section \<open>\<open>seller.py\<close>: helpers shared with \<open>market.py\<close>\<close>

subsection \<open>\<open>price_conversion\<close>\<close>

text \<open>\<open>s.split(sep)\<close> for a separator of one character: never the empty list.\<close>

fun str_split :: "char \<Rightarrow> string \<Rightarrow> string list" where
  "str_split sep [] = [[]]"
| "str_split sep (c # cs) =
     (if c = sep then [] # str_split sep cs
      else (case str_split sep cs of
              p # ps \<Rightarrow> (c # p) # ps
            | [] \<Rightarrow> [[c]]))"

text \<open>\<open>re.sub("[^0-9]", "", s)\<close>: every character outside \<open>0\<close>..\<open>9\<close> is deleted.\<close>

definition re_sub_non_digits :: "string \<Rightarrow> string" where
  "re_sub_non_digits s = filter is_digit s"

text \<open>
  \<open>price_conversion(price)\<close> is \<open>re.sub("[^0-9]", "", price.split(".")[0])\<close>. A value
  that is not a \<open>str\<close> has no \<open>split\<close>: \<open>AttributeError\<close>.
\<close>

fun price_conversion :: "pyval \<Rightarrow> py_error + string" where
  "price_conversion (PStr price) =
     (case str_split (CHR ''.'') price of
        [] \<Rightarrow> Inl IndexError
      | p # _ \<Rightarrow> Inr (re_sub_non_digits p))"
| "price_conversion _ = Inl AttributeError"

text \<open>The price normaliser as the specification words it.\<close>

definition normalizePrice_spec :: "string \<Rightarrow> string" where
  "normalizePrice_spec raw = filter is_digit (takeWhile (\<lambda>c. c \<noteq> CHR ''.'') raw)"

subsection \<open>\<open>divide\<close>\<close>

text \<open>
  \<open>for i in range(0, len(lst), n): yield lst[i : i + n]\<close>. The model is the list of
  chunks a caller gets by exhausting the generator, as every caller does with
  \<open>list(divide(...))\<close>. \<open>range\<close> raises \<open>ValueError\<close> for a step of zero and is empty for
  a negative step. The function is named \<open>divide_lst\<close> here, \<open>divide\<close> being division in
  HOL.
\<close>

function divide_loop :: "nat \<Rightarrow> 'a list \<Rightarrow> nat \<Rightarrow> 'a list list" where
  "divide_loop i lst n =
     (if 0 < n \<and> i < length lst then take n (drop i lst) # divide_loop (i + n) lst n
      else [])"
  by pat_completeness auto
termination
  by (relation "measure (\<lambda>(i, lst, n). length lst - i)") auto

declare divide_loop.simps [simp del]

definition divide_lst :: "'a list \<Rightarrow> int \<Rightarrow> py_error + 'a list list" where
  "divide_lst lst n =
     (if n = 0 then Inl ValueError
      else if n < 0 then Inr []
      else Inr (divide_loop 0 lst (nat n)))"

section \<open>List objects\<close>

text \<open>
  A Python list is an object: when a function removes elements from a list it was
  passed, the caller's list changes. A list of offer ids is therefore passed by
  reference. A heap gives every reference the list stored there; \<open>heap_of\<close> builds a
  heap from the lists that exist, every other reference holding the empty list.
\<close>

type_synonym ref = nat

type_synonym heap = "ref \<Rightarrow> string list"

definition heap_of :: "(ref \<times> string list) list \<Rightarrow> heap" where
  "heap_of objs r = (case map_of objs r of None \<Rightarrow> [] | Some l \<Rightarrow> l)"

section \<open>The reconciler\<close>

subsection \<open>The quantity mapping (\<open>seller.py\<close> lines 175-181, \<open>market.py\<close> lines 134-140)\<close>

definition stock_count :: "watch \<Rightarrow> py_error + int" where
  "stock_count watch =
     (let count = py_str (dict_get watch Kolichestvo) in
      if count = ''>10'' then Inr 100
      else if count = ''1'' then Inr 0
      else py_int (dict_get watch Kolichestvo))"

text \<open>
  The integer literals, as the amended claim C5 words them, on the code points of the
  string. A blank is a Unicode white-space character other than the four separators
  \<open>0x1C\<close> to \<open>0x1F\<close>. A run of digits is one Unicode decimal digit, followed by further
  digits, each with at most one underscore (code point 95) before it; its value is read
  in base ten. A string is an integer literal for \<open>v\<close> when it is: blanks, an optional
  sign (\<open>+\<close> is 43, \<open>-\<close> is 45), a run of at most 4300 digits, blanks; \<open>v\<close> is the value
  of the run, negated after a minus sign.
\<close>

definition int_blank :: "nat \<Rightarrow> bool" where
  "int_blank cp \<longleftrightarrow> unicode_space cp \<and> \<not> (0x1C \<le> cp \<and> cp \<le> 0x1F)"

inductive digit_run :: "nat list \<Rightarrow> nat \<Rightarrow> bool" where
  first: "unicode_decimal c = Some d \<Longrightarrow> digit_run [c] d"
| next_digit:
    "digit_run ds n \<Longrightarrow> unicode_decimal c = Some d \<Longrightarrow> digit_run (ds @ [c]) (10 * n + d)"
| underscore:
    "digit_run ds n \<Longrightarrow> unicode_decimal c = Some d \<Longrightarrow>
     digit_run (ds @ [95, c]) (10 * n + d)"

definition int_literal :: "string \<Rightarrow> int \<Rightarrow> bool" where
  "int_literal s v \<longleftrightarrow>
     (\<exists>pre sgn body post n.
        utf8_decode s = pre @ sgn @ body @ post
        \<and> (\<forall>c \<in> set pre. int_blank c) \<and> (\<forall>c \<in> set post. int_blank c)
        \<and> digit_run body n \<and> length (filter (\<lambda>c. c \<noteq> 95) body) \<le> max_str_digits
        \<and> (sgn = [] \<and> v = int n \<or> sgn = [43] \<and> v = int n \<or> sgn = [45] \<and> v = - int n))"

text \<open>
  The same grammar on ASCII text: the form in which the parser is compared with it,
  before the step from bytes to code points.
\<close>

inductive ascii_digit_run :: "string \<Rightarrow> nat \<Rightarrow> bool" where
  first: "is_digit c \<Longrightarrow> ascii_digit_run [c] (digit_val c)"
| next_digit: "ascii_digit_run ds n \<Longrightarrow> is_digit c \<Longrightarrow> ascii_digit_run (ds @ [c]) (10 * n + digit_val c)"
| underscore:
    "ascii_digit_run ds n \<Longrightarrow> is_digit c \<Longrightarrow> ascii_digit_run (ds @ [CHR ''_'', c]) (10 * n + digit_val c)"

definition ascii_literal :: "string \<Rightarrow> int \<Rightarrow> bool" where
  "ascii_literal b v \<longleftrightarrow>
     (\<exists>pre sgn body post n.
        b = pre @ sgn @ body @ post
        \<and> (\<forall>c \<in> set pre. is_space c) \<and> (\<forall>c \<in> set post. is_space c)
        \<and> ascii_digit_run body n \<and> length (filter is_digit body) \<le> max_str_digits
        \<and> (sgn = [] \<and> v = int n \<or> sgn = ''+'' \<and> v = int n \<or> sgn = ''-'' \<and> v = - int n))"

subsection \<open>\<open>seller.create_stocks\<close> and \<open>seller.create_prices\<close> (Ozon)\<close>

record ozon_stock =
  offer_id :: string
  stock :: int

record ozon_price =
  auto_action_enabled :: string
  currency_code :: string
  price_offer_id :: string
  old_price :: string
  price :: string

text \<open>
  The first loop of \<open>create_stocks\<close>. \<open>offer_ids.remove(x)\<close> deletes the first \<open>x\<close> of the
  list object itself; it is only reached when \<open>x\<close> is in the list. An exception leaves
  the loop with the list as it is at that moment.
\<close>

fun seller_stocks_loop ::
  "watch list \<Rightarrow> ref \<Rightarrow> ozon_stock list \<Rightarrow> heap \<Rightarrow> (py_error + ozon_stock list) \<times> heap"
where
  "seller_stocks_loop [] offer_ids stocks h = (Inr stocks, h)"
| "seller_stocks_loop (watch # rest) offer_ids stocks h =
     (if py_str (dict_get watch Kod) \<in> set (h offer_ids) then
        (case stock_count watch of
           Inl e \<Rightarrow> (Inl e, h)
         | Inr n \<Rightarrow>
             seller_stocks_loop rest offer_ids
               (stocks @ [\<lparr>offer_id = py_str (dict_get watch Kod), stock = n\<rparr>])
               (h(offer_ids := remove1 (py_str (dict_get watch Kod)) (h offer_ids))))
      else seller_stocks_loop rest offer_ids stocks h)"

definition seller_create_stocks ::
  "watch list \<Rightarrow> ref \<Rightarrow> heap \<Rightarrow> (py_error + ozon_stock list) \<times> heap"
where
  "seller_create_stocks watch_remnants offer_ids h =
     (case seller_stocks_loop watch_remnants offer_ids [] h of
        (Inl e, h') \<Rightarrow> (Inl e, h')
      | (Inr stocks, h') \<Rightarrow>
          (Inr (stocks @ map (\<lambda>i. \<lparr>offer_id = i, stock = 0\<rparr>) (h' offer_ids)), h'))"

fun seller_prices_loop ::
  "watch list \<Rightarrow> string list \<Rightarrow> ozon_price list \<Rightarrow> py_error + ozon_price list"
where
  "seller_prices_loop [] ids prices = Inr prices"
| "seller_prices_loop (watch # rest) ids prices =
     (if py_str (dict_get watch Kod) \<in> set ids then
        (case price_conversion (dict_get watch Tsena) of
           Inl e \<Rightarrow> Inl e
         | Inr p \<Rightarrow>
             seller_prices_loop rest ids
               (prices @ [\<lparr>auto_action_enabled = ''UNKNOWN'', currency_code = ''RUB'',
                           price_offer_id = py_str (dict_get watch Kod),
                           old_price = ''0'', price = p\<rparr>]))
      else seller_prices_loop rest ids prices)"

text \<open>\<open>create_prices\<close> reads the list of offer ids and changes nothing.\<close>

definition seller_create_prices ::
  "watch list \<Rightarrow> ref \<Rightarrow> heap \<Rightarrow> py_error + ozon_price list"
where
  "seller_create_prices watch_remnants offer_ids h =
     seller_prices_loop watch_remnants (h offer_ids) []"

text \<open>
  The reconcile step of \<open>seller.main\<close> (lines 284 and 288, without the uploads between
  them): \<open>create_stocks\<close>, then \<open>create_prices\<close> on the same list object.
\<close>

definition seller_reconcile ::
  "watch list \<Rightarrow> ref \<Rightarrow> heap \<Rightarrow> (py_error + ozon_stock list \<times> ozon_price list) \<times> heap"
where
  "seller_reconcile watch_remnants offer_ids h =
     (case seller_create_stocks watch_remnants offer_ids h of
        (Inl e, h') \<Rightarrow> (Inl e, h')
      | (Inr stocks, h') \<Rightarrow>
          (case seller_create_prices watch_remnants offer_ids h' of
             Inl e \<Rightarrow> (Inl e, h')
           | Inr prices \<Rightarrow> (Inr (stocks, prices), h')))"

subsection \<open>\<open>market.create_stocks\<close> and \<open>market.create_prices\<close> (Yandex)\<close>

record market_item =
  item_count :: int
  item_type :: string
  updatedAt :: string

record market_stock =
  sku :: string
  warehouseId :: string
  items :: "market_item list"

record market_price_value =
  price_value :: int
  currencyId :: string

record market_price =
  price_id :: string
  market_price :: market_price_value

text \<open>
  \<open>date\<close> is the text of the clock reading taken once at the start of \<open>create_stocks\<close>;
  the model takes it as an argument.
\<close>

definition market_entry :: "string \<Rightarrow> string \<Rightarrow> string \<Rightarrow> int \<Rightarrow> market_stock" where
  "market_entry warehouse_id date i n =
     \<lparr>sku = i, warehouseId = warehouse_id,
      items = [\<lparr>item_count = n, item_type = ''FIT'', updatedAt = date\<rparr>]\<rparr>"

fun market_stocks_loop ::
  "watch list \<Rightarrow> ref \<Rightarrow> string \<Rightarrow> string \<Rightarrow> market_stock list \<Rightarrow> heap
     \<Rightarrow> (py_error + market_stock list) \<times> heap"
where
  "market_stocks_loop [] offer_ids warehouse_id date stocks h = (Inr stocks, h)"
| "market_stocks_loop (watch # rest) offer_ids warehouse_id date stocks h =
     (if py_str (dict_get watch Kod) \<in> set (h offer_ids) then
        (case stock_count watch of
           Inl e \<Rightarrow> (Inl e, h)
         | Inr n \<Rightarrow>
             market_stocks_loop rest offer_ids warehouse_id date
               (stocks @ [market_entry warehouse_id date (py_str (dict_get watch Kod)) n])
               (h(offer_ids := remove1 (py_str (dict_get watch Kod)) (h offer_ids))))
      else market_stocks_loop rest offer_ids warehouse_id date stocks h)"

definition market_create_stocks ::
  "watch list \<Rightarrow> ref \<Rightarrow> string \<Rightarrow> string \<Rightarrow> heap \<Rightarrow> (py_error + market_stock list) \<times> heap"
where
  "market_create_stocks watch_remnants offer_ids warehouse_id date h =
     (case market_stocks_loop watch_remnants offer_ids warehouse_id date [] h of
        (Inl e, h') \<Rightarrow> (Inl e, h')
      | (Inr stocks, h') \<Rightarrow>
          (Inr (stocks @ map (\<lambda>i. market_entry warehouse_id date i 0) (h' offer_ids)), h'))"

fun market_prices_loop ::
  "watch list \<Rightarrow> string list \<Rightarrow> market_price list \<Rightarrow> py_error + market_price list"
where
  "market_prices_loop [] ids prices = Inr prices"
| "market_prices_loop (watch # rest) ids prices =
     (if py_str (dict_get watch Kod) \<in> set ids then
        (case price_conversion (dict_get watch Tsena) of
           Inl e \<Rightarrow> Inl e
         | Inr p \<Rightarrow>
             (case py_int (PStr p) of
                Inl e \<Rightarrow> Inl e
              | Inr v \<Rightarrow>
                  market_prices_loop rest ids
                    (prices @ [\<lparr>price_id = py_str (dict_get watch Kod),
                                market_price = \<lparr>price_value = v, currencyId = ''RUR''\<rparr>\<rparr>])))
      else market_prices_loop rest ids prices)"

definition market_create_prices ::
  "watch list \<Rightarrow> ref \<Rightarrow> heap \<Rightarrow> py_error + market_price list"
where
  "market_create_prices watch_remnants offer_ids h =
     market_prices_loop watch_remnants (h offer_ids) []"

subsection \<open>Notions used in the statements\<close>

text \<open>The code of a record as the loops read it: \<open>str(watch.get(...))\<close> of the code column.\<close>

abbreviation code_of :: "watch \<Rightarrow> string" where
  "code_of w \<equiv> py_str (dict_get w Kod)"

text \<open>The Yandex entry that carries the offer and the count of an Ozon entry.\<close>

definition to_market :: "string \<Rightarrow> string \<Rightarrow> ozon_stock \<Rightarrow> market_stock" where
  "to_market warehouse_id date e = market_entry warehouse_id date (offer_id e) (stock e)"

text \<open>
  The inputs of the specification's end-to-end scenario: one record with code \<open>"X"\<close>,
  quantity \<open>">10"\<close> and price \<open>"1'000.00 "\<close> followed by the currency suffix and
  \<open>"."\<close>, and a catalog list \<open>["X", "Y"]\<close> stored at reference 0.
\<close>

definition scenario_record :: watch where
  "scenario_record =
     map_of [(Kod, PStr ''X''), (Kolichestvo, PStr ''>10''),
             (Tsena, PStr (''1'000.00 '' @ rub @ ''.''))]"

definition scenario_heap :: heap where
  "scenario_heap = heap_of [(0, [''X'', ''Y''])]"

text \<open>A record whose price has no digit: code \<open>"X"\<close>, quantity \<open>"5"\<close>, price \<open>"abc"\<close>.\<close>

definition priceless_record :: watch where
  "priceless_record = map_of [(Kod, PStr ''X''), (Kolichestvo, PStr ''5''), (Tsena, PStr ''abc'')]"

text \<open>A record whose price cell is the number 1000, not a string: code \<open>"Y"\<close>.\<close>

definition int_price_record :: watch where
  "int_price_record = map_of [(Kod, PStr ''Y''), (Kolichestvo, PStr ''5''), (Tsena, PInt 1000)]"

text \<open>A record whose quantity is a numeral of 4301 digits, all of them 7.\<close>

definition long_quantity_record :: watch where
  "long_quantity_record =
     map_of [(Kod, PStr ''X''), (Kolichestvo, PStr (replicate 4301 (CHR ''7'')))]"

text \<open>
  Records with code \<open>"X"\<close> and other quantities: a no-break space (U+00A0) before
  \<open>"7"\<close>; the fullwidth digits one and two (U+FF11, U+FF12); \<open>" -1_2 "\<close>; \<open>"1__0"\<close>.
\<close>

definition nbsp_quantity_record :: watch where
  "nbsp_quantity_record =
     map_of [(Kod, PStr ''X''), (Kolichestvo, PStr [CHR 0xC2, CHR 0xA0, CHR ''7''])]"

definition fullwidth_quantity_record :: watch where
  "fullwidth_quantity_record =
     map_of [(Kod, PStr ''X''),
             (Kolichestvo, PStr [CHR 0xEF, CHR 0xBC, CHR 0x91, CHR 0xEF, CHR 0xBC, CHR 0x92])]"

definition signed_quantity_record :: watch where
  "signed_quantity_record = map_of [(Kod, PStr ''X''), (Kolichestvo, PStr '' -1_2 '')]"

definition malformed_quantity_record :: watch where
  "malformed_quantity_record = map_of [(Kod, PStr ''X''), (Kolichestvo, PStr ''1__0'')]"

section \<open>The marketplace clients: listing the catalog\<close>

text \<open>
  \<open>get_product_list\<close> sends one request and returns the \<open>result\<close> of the reply, or
  raises (\<open>raise_for_status\<close>, a reply that is not the expected JSON). The marketplace
  is not part of the program: the model takes the replies as an argument,
  \<open>get_product_list k cursor\<close> being what the \<open>k\<close>-th request of a run returns when it is
  sent with that cursor. The \<open>while True\<close> loops need not end, so they are partial
  functions: \<open>None\<close> is a loop that runs forever.
\<close>

subsection \<open>\<open>seller.get_offer_ids\<close> (Ozon)\<close>

record ozon_product =
  product_offer_id :: string

record ozon_page =
  page_items :: "ozon_product list"
  page_total :: int
  page_last_id :: string

partial_function (option) seller_product_loop ::
  "(nat \<Rightarrow> string \<Rightarrow> py_error + ozon_page) \<Rightarrow> nat \<Rightarrow> string \<Rightarrow> ozon_product list
     \<Rightarrow> (py_error + ozon_product list) option"
where
  "seller_product_loop get_product_list k last_id product_list =
     (case get_product_list k last_id of
        Inl e \<Rightarrow> Some (Inl e)
      | Inr some_prod \<Rightarrow>
          (if page_total some_prod = int (length (product_list @ page_items some_prod))
           then Some (Inr (product_list @ page_items some_prod))
           else seller_product_loop get_product_list (k + 1) (page_last_id some_prod)
                  (product_list @ page_items some_prod)))"

definition seller_get_offer_ids ::
  "(nat \<Rightarrow> string \<Rightarrow> py_error + ozon_page) \<Rightarrow> (py_error + string list) option"
where
  "seller_get_offer_ids get_product_list =
     (case seller_product_loop get_product_list 0 '''' [] of
        None \<Rightarrow> None
      | Some (Inl e) \<Rightarrow> Some (Inl e)
      | Some (Inr product_list) \<Rightarrow> Some (Inr (map product_offer_id product_list)))"

subsection \<open>\<open>market.get_offer_ids\<close> (Yandex)\<close>

text \<open>
  \<open>nextPageToken\<close> is \<open>None\<close> when the reply has no token. \<open>if not page: break\<close> leaves
  the loop on \<open>None\<close> and on the empty string.
\<close>

record market_offer =
  shopSku :: string

record offer_mapping_entry =
  offer :: market_offer

record market_page =
  offerMappingEntries :: "offer_mapping_entry list"
  nextPageToken :: "string option"

partial_function (option) market_product_loop ::
  "(nat \<Rightarrow> string \<Rightarrow> py_error + market_page) \<Rightarrow> nat \<Rightarrow> string \<Rightarrow> offer_mapping_entry list
     \<Rightarrow> (py_error + offer_mapping_entry list) option"
where
  "market_product_loop get_product_list k page product_list =
     (case get_product_list k page of
        Inl e \<Rightarrow> Some (Inl e)
      | Inr some_prod \<Rightarrow>
          (case nextPageToken some_prod of
             None \<Rightarrow> Some (Inr (product_list @ offerMappingEntries some_prod))
           | Some token \<Rightarrow>
               if token = '''' then Some (Inr (product_list @ offerMappingEntries some_prod))
               else market_product_loop get_product_list (k + 1) token
                      (product_list @ offerMappingEntries some_prod)))"

definition market_get_offer_ids ::
  "(nat \<Rightarrow> string \<Rightarrow> py_error + market_page) \<Rightarrow> (py_error + string list) option"
where
  "market_get_offer_ids get_product_list =
     (case market_product_loop get_product_list 0 '''' [] of
        None \<Rightarrow> None
      | Some (Inl e) \<Rightarrow> Some (Inl e)
      | Some (Inr product_list) \<Rightarrow> Some (Inr (map (\<lambda>product. shopSku (offer product)) product_list)))"

subsection \<open>The pages of a run\<close>

text \<open>
  For a sequence of pages: the cursor sent with the \<open>k\<close>-th request, the items
  accumulated from the pages before the \<open>k\<close>-th, and the termination signal of each
  marketplace at the \<open>k\<close>-th page (Ozon: the reported total equals the number of items
  accumulated so far, this page included; Yandex: no next-page token, or an empty one).
\<close>

fun seller_cursor :: "(nat \<Rightarrow> ozon_page) \<Rightarrow> nat \<Rightarrow> string" where
  "seller_cursor pages 0 = ''''"
| "seller_cursor pages (Suc k) = page_last_id (pages k)"

definition seller_collected :: "(nat \<Rightarrow> ozon_page) \<Rightarrow> nat \<Rightarrow> ozon_product list" where
  "seller_collected pages k = concat (map (\<lambda>j. page_items (pages j)) [0..<k])"

definition seller_signal :: "(nat \<Rightarrow> ozon_page) \<Rightarrow> nat \<Rightarrow> bool" where
  "seller_signal pages k \<longleftrightarrow>
     page_total (pages k) = int (length (seller_collected pages (Suc k)))"

fun market_cursor :: "(nat \<Rightarrow> market_page) \<Rightarrow> nat \<Rightarrow> string" where
  "market_cursor pages 0 = ''''"
| "market_cursor pages (Suc k) = (case nextPageToken (pages k) of None \<Rightarrow> '''' | Some token \<Rightarrow> token)"

definition market_collected :: "(nat \<Rightarrow> market_page) \<Rightarrow> nat \<Rightarrow> offer_mapping_entry list" where
  "market_collected pages k = concat (map (\<lambda>j. offerMappingEntries (pages j)) [0..<k])"

definition market_signal :: "(nat \<Rightarrow> market_page) \<Rightarrow> nat \<Rightarrow> bool" where
  "market_signal pages k \<longleftrightarrow>
     nextPageToken (pages k) = None \<or> nextPageToken (pages k) = Some ''''"

text \<open>
  Example marketplaces: a catalog of three offers served in two pages, and one that never
  gives the termination signal.
\<close>

definition ozon_two_pages :: "nat \<Rightarrow> ozon_page" where
  "ozon_two_pages k =
     (if k = 0
      then \<lparr>page_items = [\<lparr>product_offer_id = ''A''\<rparr>, \<lparr>product_offer_id = ''B''\<rparr>],
            page_total = 3, page_last_id = ''B''\<rparr>
      else \<lparr>page_items = [\<lparr>product_offer_id = ''C''\<rparr>], page_total = 3, page_last_id = ''C''\<rparr>)"

definition ozon_two_pages_client :: "nat \<Rightarrow> string \<Rightarrow> py_error + ozon_page" where
  "ozon_two_pages_client k last_id =
     (if last_id = '''' then Inr (ozon_two_pages 0)
      else if last_id = ''B'' then Inr (ozon_two_pages 1)
      else Inl HTTPError)"

definition ozon_stuck_pages :: "nat \<Rightarrow> ozon_page" where
  "ozon_stuck_pages k = \<lparr>page_items = [], page_total = 1, page_last_id = ''''\<rparr>"

definition ozon_stuck_client :: "nat \<Rightarrow> string \<Rightarrow> py_error + ozon_page" where
  "ozon_stuck_client k last_id = Inr (ozon_stuck_pages k)"

definition market_two_pages :: "nat \<Rightarrow> market_page" where
  "market_two_pages k =
     (if k = 0
      then \<lparr>offerMappingEntries = [\<lparr>offer = \<lparr>shopSku = ''A''\<rparr>\<rparr>], nextPageToken = Some ''t1''\<rparr>
      else \<lparr>offerMappingEntries = [\<lparr>offer = \<lparr>shopSku = ''B''\<rparr>\<rparr>], nextPageToken = None\<rparr>)"

definition market_two_pages_client :: "nat \<Rightarrow> string \<Rightarrow> py_error + market_page" where
  "market_two_pages_client k page =
     (if page = '''' then Inr (market_two_pages 0)
      else if page = ''t1'' then Inr (market_two_pages 1)
      else Inl HTTPError)"

definition market_stuck_pages :: "nat \<Rightarrow> market_page" where
  "market_stuck_pages k = \<lparr>offerMappingEntries = [], nextPageToken = Some ''again''\<rparr>"

definition market_stuck_client :: "nat \<Rightarrow> string \<Rightarrow> py_error + market_page" where
  "market_stuck_client k page = Inr (market_stuck_pages k)"

section \<open>The orchestrators\<close>

text \<open>
  A run of \<open>main\<close> is modelled from after the reads of the environment. The outside
  world is an argument: the replies of the marketplace to the catalog requests, what
  \<open>download_stock\<close> returns or raises, and for each upload whether it raises (the
  \<open>k\<close>-th upload of a loop, with its batch). The result of a run records the batches
  whose upload was attempted, what the handler printed, and the exception that left
  \<open>main\<close> uncaught, if any: the process exits with status 0 exactly when there is none.
  A run is \<open>None\<close> when a catalog loop never ends.
\<close>

datatype message = Timeout_message | Connection_message py_error | ERROR_2_message py_error

record ('s, 'p) run =
  stocks_sent :: "'s list list"
  prices_sent :: "'p list list"
  printed :: "message list"
  uncaught :: "py_error option"

text \<open>\<open>for batch in list(divide(...)): update(batch, ...)\<close>: stops at the first exception.\<close>

fun upload_loop :: "(nat \<Rightarrow> 'b \<Rightarrow> py_error option) \<Rightarrow> nat \<Rightarrow> 'b list \<Rightarrow> 'b list \<times> py_error option" where
  "upload_loop update k [] = ([], None)"
| "upload_loop update k (batch # rest) =
     (case update k batch of
        Some e \<Rightarrow> ([batch], Some e)
      | None \<Rightarrow> (case upload_loop update (k + 1) rest of (sent, r) \<Rightarrow> (batch # sent, r)))"

text \<open>
  The three \<open>except\<close> clauses: \<open>ReadTimeout\<close>, then \<open>ConnectionError\<close>, then any
  \<open>Exception\<close>. Each prints one line and returns.
\<close>

definition handler :: "py_error \<Rightarrow> 's list list \<Rightarrow> 'p list list \<Rightarrow> ('s, 'p) run" where
  "handler error sent_stocks sent_prices =
     \<lparr>stocks_sent = sent_stocks, prices_sent = sent_prices,
      printed = [if error = ReadTimeout then Timeout_message
                 else if error = ConnectionError then Connection_message error
                 else ERROR_2_message error],
      uncaught = None\<rparr>"

subsection \<open>\<open>seller.main\<close>\<close>

text \<open>
  The list returned by \<open>get_offer_ids\<close> is one object, stored at reference 0; it is passed
  to \<open>create_stocks\<close> and, later, to \<open>create_prices\<close>.
\<close>

record seller_world =
  ozon_get_product_list :: "nat \<Rightarrow> string \<Rightarrow> py_error + ozon_page"
  ozon_download_stock :: "py_error + watch list"
  ozon_update_stocks :: "nat \<Rightarrow> ozon_stock list \<Rightarrow> py_error option"
  ozon_update_price :: "nat \<Rightarrow> ozon_price list \<Rightarrow> py_error option"

definition seller_main :: "seller_world \<Rightarrow> (ozon_stock, ozon_price) run option" where
  "seller_main w =
     (case seller_get_offer_ids (ozon_get_product_list w) of
        None \<Rightarrow> None
      | Some (Inl e) \<Rightarrow> Some (handler e [] [])
      | Some (Inr ids) \<Rightarrow>
     (case ozon_download_stock w of
        Inl e \<Rightarrow> Some (handler e [] [])
      | Inr watch_remnants \<Rightarrow>
     (case seller_create_stocks watch_remnants 0 (heap_of [(0, ids)]) of
        (Inl e, h) \<Rightarrow> Some (handler e [] [])
      | (Inr stocks, h) \<Rightarrow>
     (case divide_lst stocks 100 of
        Inl e \<Rightarrow> Some (handler e [] [])
      | Inr stock_batches \<Rightarrow>
     (case upload_loop (ozon_update_stocks w) 0 stock_batches of
        (sent, Some e) \<Rightarrow> Some (handler e sent [])
      | (sent, None) \<Rightarrow>
     (case seller_create_prices watch_remnants 0 h of
        Inl e \<Rightarrow> Some (handler e sent [])
      | Inr prices \<Rightarrow>
     (case divide_lst prices 900 of
        Inl e \<Rightarrow> Some (handler e sent [])
      | Inr price_batches \<Rightarrow>
     (case upload_loop (ozon_update_price w) 0 price_batches of
        (psent, Some e) \<Rightarrow> Some (handler e sent psent)
      | (psent, None) \<Rightarrow>
          Some \<lparr>stocks_sent = sent, prices_sent = psent, printed = [],
                uncaught = None\<rparr>))))))))"

subsection \<open>\<open>market.main\<close>\<close>

text \<open>
  \<open>download_stock\<close> is called before the \<open>try\<close> block. The block for one campaign
  (lines 266-272 for FBS, 275-281 for DBS) fetches the catalog, builds the stock list
  and uploads it in batches of 2000. \<open>upload_prices\<close> is an \<open>async def\<close> that is called
  without being awaited: the call only creates a coroutine object, its body never runs, so
  it has no effect and raises nothing. \<open>fbs_date\<close> and \<open>dbs_date\<close> are the clock readings
  of the two \<open>create_stocks\<close> calls.
\<close>

record market_world =
  fbs_get_product_list :: "nat \<Rightarrow> string \<Rightarrow> py_error + market_page"
  dbs_get_product_list :: "nat \<Rightarrow> string \<Rightarrow> py_error + market_page"
  market_download_stock :: "py_error + watch list"
  fbs_update_stocks :: "nat \<Rightarrow> market_stock list \<Rightarrow> py_error option"
  dbs_update_stocks :: "nat \<Rightarrow> market_stock list \<Rightarrow> py_error option"
  warehouse_fbs_id :: string
  warehouse_dbs_id :: string
  fbs_date :: string
  dbs_date :: string

definition market_campaign ::
  "(nat \<Rightarrow> string \<Rightarrow> py_error + market_page) \<Rightarrow> watch list \<Rightarrow> string \<Rightarrow> string
     \<Rightarrow> (nat \<Rightarrow> market_stock list \<Rightarrow> py_error option)
     \<Rightarrow> (market_stock list list \<times> py_error option) option"
where
  "market_campaign get_product_list watch_remnants warehouse_id date update_stocks =
     (case market_get_offer_ids get_product_list of
        None \<Rightarrow> None
      | Some (Inl e) \<Rightarrow> Some ([], Some e)
      | Some (Inr ids) \<Rightarrow>
     (case market_create_stocks watch_remnants 0 warehouse_id date (heap_of [(0, ids)]) of
        (Inl e, h) \<Rightarrow> Some ([], Some e)
      | (Inr stocks, h) \<Rightarrow>
     (case divide_lst stocks 2000 of
        Inl e \<Rightarrow> Some ([], Some e)
      | Inr stock_batches \<Rightarrow> Some (upload_loop update_stocks 0 stock_batches))))"

definition market_main :: "market_world \<Rightarrow> (market_stock, market_price) run option" where
  "market_main w =
     (case market_download_stock w of
        Inl e \<Rightarrow> Some \<lparr>stocks_sent = [], prices_sent = [], printed = [], uncaught = Some e\<rparr>
      | Inr watch_remnants \<Rightarrow>
     (case market_campaign (fbs_get_product_list w) watch_remnants (warehouse_fbs_id w)
             (fbs_date w) (fbs_update_stocks w) of
        None \<Rightarrow> None
      | Some (sent, Some e) \<Rightarrow> Some (handler e sent [])
      | Some (sent, None) \<Rightarrow>
     (case market_campaign (dbs_get_product_list w) watch_remnants (warehouse_dbs_id w)
             (dbs_date w) (dbs_update_stocks w) of
        None \<Rightarrow> None
      | Some (sent', Some e) \<Rightarrow> Some (handler e (sent @ sent') [])
      | Some (sent', None) \<Rightarrow>
          Some \<lparr>stocks_sent = sent @ sent', prices_sent = [], printed = [],
                uncaught = None\<rparr>)))"

text \<open>
  The world of the end-to-end scenario: the catalog \<open>["X", "Y"]\<close> in one page, the
  scenario's record as the inventory, and uploads that succeed.
\<close>

definition scenario_catalog :: "nat \<Rightarrow> string \<Rightarrow> py_error + ozon_page" where
  "scenario_catalog k last_id =
     Inr \<lparr>page_items = [\<lparr>product_offer_id = ''X''\<rparr>, \<lparr>product_offer_id = ''Y''\<rparr>],
          page_total = 2, page_last_id = ''Y''\<rparr>"

definition always_accepts :: "nat \<Rightarrow> 'b \<Rightarrow> py_error option" where
  "always_accepts k batch = None"

definition scenario_world :: seller_world where
  "scenario_world =
     \<lparr>ozon_get_product_list = scenario_catalog,
      ozon_download_stock = Inr [scenario_record],
      ozon_update_stocks = always_accepts,
      ozon_update_price = always_accepts\<rparr>"

text \<open>Worlds in which the inventory download fails with a connection error.\<close>

definition never_queried :: "nat \<Rightarrow> string \<Rightarrow> py_error + market_page" where
  "never_queried k page = Inl OtherException"

definition download_fails_market :: market_world where
  "download_fails_market =
     \<lparr>fbs_get_product_list = never_queried, dbs_get_product_list = never_queried,
      market_download_stock = Inl ConnectionError,
      fbs_update_stocks = always_accepts, dbs_update_stocks = always_accepts,
      warehouse_fbs_id = ''1'', warehouse_dbs_id = ''2'',
      fbs_date = ''2024-01-01T00:00:00Z'', dbs_date = ''2024-01-01T00:00:01Z''\<rparr>"

definition download_fails_seller :: seller_world where
  "download_fails_seller =
     \<lparr>ozon_get_product_list = scenario_catalog,
      ozon_download_stock = Inl ConnectionError,
      ozon_update_stocks = always_accepts,
      ozon_update_price = always_accepts\<rparr>"

section \<open>Theorems\<close>

subsection \<open>Reading integers\<close>

lemma underscore_not_digit: "\<not> is_digit (CHR ''_'')"
  by (simp add: is_digit_def)

lemma digit_not_space: "is_digit c \<Longrightarrow> \<not> is_space c"
  by (auto simp: is_digit_def is_space_def)

lemma sign_not_space: "\<not> is_space (CHR ''+'')" "\<not> is_space (CHR ''-'')"
  by (simp_all add: is_space_def)

lemma digit_not_sign: "is_digit c \<Longrightarrow> c \<noteq> CHR ''-'' \<and> c \<noteq> CHR ''+''"
  by (auto simp: is_digit_def)

lemma digits_value_append_digit:
  "digits_value acc xs = Some m \<Longrightarrow> is_digit c \<Longrightarrow>
   digits_value acc (xs @ [c]) = Some (10 * m + digit_val c)"
  by (induction acc xs rule: digits_value.induct) (auto split: if_splits)

lemma digits_value_append_underscore:
  "digits_value acc xs = Some m \<Longrightarrow> is_digit c \<Longrightarrow>
   digits_value acc (xs @ [CHR ''_'', c]) = Some (10 * m + digit_val c)"
  by (induction acc xs rule: digits_value.induct)
     (auto simp: underscore_not_digit split: if_splits)

lemma ascii_digit_run_parse:
  "ascii_digit_run body n \<Longrightarrow>
   \<exists>c cs. body = c # cs \<and> is_digit c \<and> digits_value (digit_val c) cs = Some n"
proof (induction rule: ascii_digit_run.induct)
  case (first c)
  then show ?case by simp
next
  case (next_digit ds n c)
  then obtain d cs where "ds = d # cs" "is_digit d" "digits_value (digit_val d) cs = Some n"
    by blast
  then show ?case
    using next_digit.hyps(2) digits_value_append_digit [of "digit_val d" cs n c] by simp
next
  case (underscore ds n c)
  then obtain d cs where "ds = d # cs" "is_digit d" "digits_value (digit_val d) cs = Some n"
    by blast
  then show ?case
    using underscore.hyps(2) digits_value_append_underscore [of "digit_val d" cs n c] by simp
qed

lemma ascii_digit_run_unsigned: "ascii_digit_run body n \<Longrightarrow> unsigned_value body = Some n"
  using ascii_digit_run_parse [of body n] by (auto simp: unsigned_value_def)

lemma digits_value_run:
  "digits_value a xs = Some n \<Longrightarrow> ascii_digit_run pfx a \<Longrightarrow> ascii_digit_run (pfx @ xs) n"
proof (induction a xs arbitrary: pfx rule: digits_value.induct)
  case (1 acc)
  then show ?case by simp
next
  case (2 acc c)
  then show ?case
    by (auto split: if_splits intro: ascii_digit_run.next_digit)
next
  case (3 acc c d ds)
  show ?case
  proof (cases "is_digit c")
    case True
    then have "ascii_digit_run (pfx @ [c]) (10 * acc + digit_val c)"
      using "3.prems"(2) by (intro ascii_digit_run.next_digit)
    moreover have "digits_value (10 * acc + digit_val c) (d # ds) = Some n"
      using "3.prems"(1) True by simp
    ultimately have "ascii_digit_run ((pfx @ [c]) @ d # ds) n"
      using "3.IH"(1) [OF True] by blast
    then show ?thesis by simp
  next
    case False
    with "3.prems"(1) have u: "c = CHR ''_''" "is_digit d"
      and v: "digits_value (10 * acc + digit_val d) ds = Some n"
      by (auto split: if_splits)
    have "ascii_digit_run (pfx @ [CHR ''_'', d]) (10 * acc + digit_val d)"
      using "3.prems"(2) u(2) by (intro ascii_digit_run.underscore)
    with "3.IH"(2) [of "pfx @ [CHR ''_'', d]"] False u v
    have "ascii_digit_run ((pfx @ [CHR ''_'', d]) @ ds) n" by blast
    then show ?thesis using u by simp
  qed
qed

lemma unsigned_run: "unsigned_value body = Some n \<Longrightarrow> ascii_digit_run body n"
proof (cases body)
  case Nil
  assume "unsigned_value body = Some n"
  with Nil show ?thesis by (simp add: unsigned_value_def)
next
  case (Cons c cs)
  assume "unsigned_value body = Some n"
  with Cons have c: "is_digit c" and v: "digits_value (digit_val c) cs = Some n"
    by (auto simp: unsigned_value_def split: if_splits)
  have "ascii_digit_run [c] (digit_val c)" using c by (rule ascii_digit_run.first)
  from digits_value_run [OF v this] show ?thesis using Cons by simp
qed

lemma ascii_digit_run_ends:
  "ascii_digit_run body n \<Longrightarrow> body \<noteq> [] \<and> is_digit (hd body) \<and> is_digit (last body)"
  by (induction rule: ascii_digit_run.induct) (auto simp: hd_append)

lemma strip_middle:
  assumes "\<forall>c \<in> set pre. is_space c" and "\<forall>c \<in> set post. is_space c"
    and "m \<noteq> []" and "\<not> is_space (hd m)" and "\<not> is_space (last m)"
  shows "strip (pre @ m @ post) = m"
proof -
  have "dropWhile is_space (pre @ m @ post) = dropWhile is_space (m @ post)"
    using assms(1) by (intro dropWhile_append2) simp
  also have "\<dots> = m @ post"
    using assms(3,4) by (cases m) simp_all
  finally have a: "dropWhile is_space (pre @ m @ post) = m @ post" .
  have "\<And>x. x \<in> set (rev post) \<Longrightarrow> is_space x"
    using assms(2) by simp
  then have "dropWhile is_space (rev post @ rev m) = dropWhile is_space (rev m)"
    by (rule dropWhile_append2)
  moreover have "dropWhile is_space (rev m) = rev m"
  proof (cases "rev m")
    case Nil
    then show ?thesis by simp
  next
    case (Cons x xs)
    then have "m = rev xs @ [x]" by (simp add: rev_eq_append_conv)
    then have "x = last m" by simp
    then have "\<not> is_space x" using assms(5) by simp
    then show ?thesis unfolding Cons by simp
  qed
  ultimately show ?thesis
    by (simp add: strip_def a)
qed

lemma strip_decomp:
  "\<exists>pre post. s = pre @ strip s @ post
     \<and> (\<forall>c \<in> set pre. is_space c) \<and> (\<forall>c \<in> set post. is_space c)"
proof -
  let ?t = "dropWhile is_space s"
  let ?pre = "takeWhile is_space s"
  let ?post = "rev (takeWhile is_space (rev ?t))"
  have "strip s @ ?post = rev (takeWhile is_space (rev ?t) @ dropWhile is_space (rev ?t))"
    by (simp only: strip_def rev_append)
  also have "\<dots> = rev (rev ?t)"
    by (simp only: takeWhile_dropWhile_id)
  also have "\<dots> = ?t"
    by (rule rev_rev_ident)
  finally have t: "strip s @ ?post = ?t" .
  have "s = ?pre @ ?t" by simp
  then have "s = ?pre @ strip s @ ?post"
    by (simp only: t)
  moreover have "\<forall>c \<in> set ?pre. is_space c"
    by (auto dest: set_takeWhileD)
  moreover have "\<forall>c \<in> set ?post. is_space c"
    by (auto dest: set_takeWhileD)
  ultimately show ?thesis by blast
qed

lemma ascii_literal_int:
  assumes "ascii_literal b v"
  shows "ascii_int b = Some v"
proof -
  from assms obtain pre sgn body post n where
    b: "b = pre @ sgn @ body @ post"
    and pre: "\<forall>c \<in> set pre. is_space c" and post: "\<forall>c \<in> set post. is_space c"
    and run: "ascii_digit_run body n" and lim: "length (filter is_digit body) \<le> max_str_digits"
    and sg: "sgn = [] \<and> v = int n \<or> sgn = ''+'' \<and> v = int n \<or> sgn = ''-'' \<and> v = - int n"
    unfolding ascii_literal_def by blast
  from ascii_digit_run_ends [OF run] have ne: "body \<noteq> []" and h: "is_digit (hd body)"
    and l: "is_digit (last body)" by simp_all
  have nd: "filter is_digit pre = []" "filter is_digit post = []"
    using pre post by (auto simp: filter_empty_conv dest: digit_not_space)
  have sd: "filter is_digit sgn = []"
    using sg by (auto simp: is_digit_def)
  have cnt: "\<not> max_str_digits < length (filter is_digit b)"
    using lim by (simp add: b nd sd)
  have m: "sgn @ body \<noteq> []" "\<not> is_space (hd (sgn @ body))" "\<not> is_space (last (sgn @ body))"
    using ne h l sg by (auto simp: digit_not_space sign_not_space hd_append)
  have st: "strip b = sgn @ body"
    using strip_middle [OF pre post m] by (simp add: b)
  obtain c cs where body: "body = c # cs" using ne by (cases body) auto
  then have c: "c \<noteq> CHR ''-''" "c \<noteq> CHR ''+''"
    using h digit_not_sign [of c] by auto
  have u: "unsigned_value (c # cs) = Some n"
    using ascii_digit_run_unsigned [OF run] body by simp
  from sg show ?thesis
  proof (elim disjE conjE)
    assume "sgn = []" "v = int n"
    then show ?thesis using cnt st body c u by (simp add: ascii_int_def)
  next
    assume "sgn = ''+''" "v = int n"
    then show ?thesis using cnt st body u by (simp add: ascii_int_def)
  next
    assume "sgn = ''-''" "v = - int n"
    then show ?thesis using cnt st body u by (simp add: ascii_int_def)
  qed
qed

lemma ascii_int_literal:
  assumes "ascii_int b = Some v"
  shows "ascii_literal b v"
proof -
  from assms have cnt: "length (filter is_digit b) \<le> max_str_digits"
    by (auto simp: ascii_int_def split: if_splits)
  obtain pre post where b: "b = pre @ strip b @ post"
    and pre: "\<forall>c \<in> set pre. is_space c" and post: "\<forall>c \<in> set post. is_space c"
    using strip_decomp [of b] by blast
  from assms cnt obtain c cs where st: "strip b = c # cs"
    by (cases "strip b") (auto simp: ascii_int_def)
  have sub: "length (filter is_digit body) \<le> max_str_digits"
    if "strip b = sgn @ body" for sgn body
  proof -
    have eq: "b = pre @ sgn @ body @ post" using b that by simp
    have "filter is_digit b
        = filter is_digit pre @ filter is_digit sgn @ filter is_digit body @ filter is_digit post"
      by (subst eq) simp
    then have "length (filter is_digit body) \<le> length (filter is_digit b)"
      by simp
    then show ?thesis using cnt by simp
  qed
  consider (minus) "c = CHR ''-''" | (plus) "c = CHR ''+''" | (none) "c \<noteq> CHR ''-''" "c \<noteq> CHR ''+''"
    by blast
  then show ?thesis
  proof cases
    case minus
    with assms cnt st obtain n where n: "unsigned_value cs = Some n" and v: "v = - int n"
      by (auto simp: ascii_int_def)
    have s: "strip b = ''-'' @ cs" using st minus by simp
    have "b = pre @ ''-'' @ cs @ post" using b s by simp
    then show ?thesis
      unfolding ascii_literal_def
      using pre post unsigned_run [OF n] sub [OF s] v by blast
  next
    case plus
    with assms cnt st obtain n where n: "unsigned_value cs = Some n" and v: "v = int n"
      by (auto simp: ascii_int_def)
    have s: "strip b = ''+'' @ cs" using st plus by simp
    have "b = pre @ ''+'' @ cs @ post" using b s by simp
    then show ?thesis
      unfolding ascii_literal_def
      using pre post unsigned_run [OF n] sub [OF s] v by blast
  next
    case none
    with assms cnt st obtain n where n: "unsigned_value (c # cs) = Some n" and v: "v = int n"
      by (auto simp: ascii_int_def)
    have s: "strip b = [] @ (c # cs)" using st by simp
    have "b = pre @ [] @ (c # cs) @ post" using b st by simp
    then show ?thesis
      unfolding ascii_literal_def
      using pre post unsigned_run [OF n] sub [OF s] v by blast
  qed
qed

lemma py_int_str_ascii_literal:
  "py_int_str s = Some v \<longleftrightarrow> ascii_literal (to_ascii_str s) v"
proof
  assume "py_int_str s = Some v"
  then have "ascii_int (to_ascii_str s) = Some v"
    by (simp only: py_int_str_def)
  then show "ascii_literal (to_ascii_str s) v"
    by (rule ascii_int_literal)
next
  assume "ascii_literal (to_ascii_str s) v"
  then have "ascii_int (to_ascii_str s) = Some v"
    by (rule ascii_literal_int)
  then show "py_int_str s = Some v"
    by (simp only: py_int_str_def)
qed

text \<open>
  From the ASCII text back to the code points: what the transformation makes a blank, a
  digit, an underscore or a sign is one in the string, and nothing else is.
\<close>

lemma unicode_decimal_ascii:
  "c < 127 \<Longrightarrow> unicode_decimal c = (if 48 \<le> c \<and> c \<le> 57 then Some (c - 48) else None)"
  by (simp add: unicode_decimal_def decimal_zeros_def)

lemma unicode_decimal_less: "unicode_decimal c = Some d \<Longrightarrow> d < 10"
  by (auto simp: unicode_decimal_def find_Some_iff split: option.splits)

lemma unicode_space_high:
  "127 \<le> c \<Longrightarrow> unicode_space c \<longleftrightarrow>
     c = 0x85 \<or> c = 0xA0 \<or> c = 0x1680 \<or> (0x2000 \<le> c \<and> c \<le> 0x200A)
     \<or> c = 0x2028 \<or> c = 0x2029 \<or> c = 0x202F \<or> c = 0x205F \<or> c = 0x3000"
  by (auto simp: unicode_space_def)

lemma unicode_space_not_decimal:
  assumes "127 \<le> c" and "unicode_space c"
  shows "unicode_decimal c = None"
proof -
  consider "c = 0x85" | "c = 0xA0" | "c = 0x1680" | "0x2000 \<le> c \<and> c \<le> 0x200A"
    | "c = 0x2028" | "c = 0x2029" | "c = 0x202F" | "c = 0x205F" | "c = 0x3000"
    using assms by (auto simp: unicode_space_high)
  then show ?thesis
  proof cases
    case 4
    then show ?thesis by (simp add: unicode_decimal_def decimal_zeros_def)
  qed (simp_all add: unicode_decimal_def decimal_zeros_def)
qed

lemma of_char_char_of_small: "c < 256 \<Longrightarrow> (of_char (char_of (c :: nat)) :: nat) = c"
  by simp

lemma digit_char_props:
  "d < 10 \<Longrightarrow> is_digit (digit_char d) \<and> digit_val (digit_char d) = d
     \<and> \<not> is_space (digit_char d) \<and> digit_char d \<noteq> CHR ''_''
     \<and> digit_char d \<noteq> CHR ''+'' \<and> digit_char d \<noteq> CHR ''-''"
  by (auto simp: is_digit_def digit_val_def digit_char_def is_space_def char_of_eq_iff
        take_bit_eq_mod)

lemma to_ascii_char_cases:
  obtains (low) "c < 127" "to_ascii_char c = char_of c"
  | (space) "127 \<le> c" "unicode_space c" "unicode_decimal c = None" "to_ascii_char c = CHR '' ''"
  | (digit) d where "127 \<le> c" "\<not> unicode_space c" "unicode_decimal c = Some d" "d < 10"
      "to_ascii_char c = digit_char d"
  | (other) "127 \<le> c" "\<not> unicode_space c" "unicode_decimal c = None"
      "to_ascii_char c = CHR ''?''"
proof (cases "c < 127")
  case True
  then show ?thesis using low by (simp add: to_ascii_char_def)
next
  case False
  then have h: "127 \<le> c" by simp
  show ?thesis
  proof (cases "unicode_space c")
    case True
    then show ?thesis
      using space h unicode_space_not_decimal [OF h] False by (simp add: to_ascii_char_def)
  next
    case ns: False
    show ?thesis
    proof (cases "unicode_decimal c")
      case None
      then show ?thesis using other h ns False by (simp add: to_ascii_char_def)
    next
      case (Some d)
      then show ?thesis
        using digit [of d] h ns False unicode_decimal_less [OF Some]
        by (simp add: to_ascii_char_def)
    qed
  qed
qed

lemma space_class: "is_space (to_ascii_char c) \<longleftrightarrow> int_blank c"
proof (cases c rule: to_ascii_char_cases)
  case low
  then show ?thesis
    by (auto simp: is_space_def int_blank_def unicode_space_def)
next
  case space
  then show ?thesis by (simp add: is_space_def int_blank_def)
next
  case (digit d)
  then show ?thesis using digit_char_props [of d] by (simp add: int_blank_def)
next
  case other
  then show ?thesis by (simp add: is_space_def int_blank_def)
qed

lemma digit_class:
  "is_digit (to_ascii_char c) \<longleftrightarrow> (\<exists>d. unicode_decimal c = Some d)"
proof (cases c rule: to_ascii_char_cases)
  case low
  then show ?thesis
    by (auto simp: is_digit_def unicode_decimal_ascii)
next
  case space
  then show ?thesis by (simp add: is_digit_def)
next
  case (digit d)
  then show ?thesis using digit_char_props [of d] by simp
next
  case other
  then show ?thesis by (simp add: is_digit_def)
qed

lemma digit_class_val:
  "unicode_decimal c = Some d \<Longrightarrow> digit_val (to_ascii_char c) = d"
proof (cases c rule: to_ascii_char_cases)
  case low
  assume "unicode_decimal c = Some d"
  with low show ?thesis
    by (auto simp: digit_val_def unicode_decimal_ascii split: if_splits)
next
  case space
  assume "unicode_decimal c = Some d"
  with space show ?thesis by simp
next
  case (digit d')
  assume "unicode_decimal c = Some d"
  with digit show ?thesis using digit_char_props [of d'] by simp
next
  case other
  assume "unicode_decimal c = Some d"
  with other show ?thesis by simp
qed

lemma mark_class:
  "to_ascii_char c = CHR ''_'' \<longleftrightarrow> c = 95"
  "to_ascii_char c = CHR ''+'' \<longleftrightarrow> c = 43"
  "to_ascii_char c = CHR ''-'' \<longleftrightarrow> c = 45"
proof -
  have "(to_ascii_char c = CHR ''_'' \<longleftrightarrow> c = 95)
      \<and> (to_ascii_char c = CHR ''+'' \<longleftrightarrow> c = 43)
      \<and> (to_ascii_char c = CHR ''-'' \<longleftrightarrow> c = 45)"
  proof (cases c rule: to_ascii_char_cases)
    case low
    then have "take_bit 8 c = c" by (simp add: take_bit_eq_mod)
    with low show ?thesis by (simp add: char_of_eq_iff)
  next
    case space
    then show ?thesis by auto
  next
    case (digit d)
    then show ?thesis using digit_char_props [of d] by auto
  next
    case other
    then show ?thesis by auto
  qed
  then show "to_ascii_char c = CHR ''_'' \<longleftrightarrow> c = 95"
    "to_ascii_char c = CHR ''+'' \<longleftrightarrow> c = 43"
    "to_ascii_char c = CHR ''-'' \<longleftrightarrow> c = 45"
    by simp_all
qed

lemma digit_run_ascii:
  "digit_run body n \<Longrightarrow> ascii_digit_run (map to_ascii_char body) n"
proof (induction rule: digit_run.induct)
  case (first c d)
  then have "is_digit (to_ascii_char c)" and "digit_val (to_ascii_char c) = d"
    by (simp_all add: digit_class digit_class_val)
  then show ?case
    using ascii_digit_run.first [of "to_ascii_char c"] by simp
next
  case (next_digit ds n c d)
  then have "is_digit (to_ascii_char c)" and "digit_val (to_ascii_char c) = d"
    by (simp_all add: digit_class digit_class_val)
  then show ?case
    using ascii_digit_run.next_digit [OF next_digit.IH, of "to_ascii_char c"] by simp
next
  case (underscore ds n c d)
  then have "is_digit (to_ascii_char c)" and "digit_val (to_ascii_char c) = d"
    by (simp_all add: digit_class digit_class_val)
  moreover have "to_ascii_char 95 = CHR ''_''"
    by (simp add: mark_class)
  ultimately show ?case
    using ascii_digit_run.underscore [OF underscore.IH, of "to_ascii_char c"] by simp
qed

lemma ascii_digit_run_decoded:
  "ascii_digit_run b n \<Longrightarrow> b = map to_ascii_char body \<Longrightarrow> digit_run body n"
proof (induction arbitrary: body rule: ascii_digit_run.induct)
  case (first c)
  then obtain c0 where b: "body = [c0]" and c: "c = to_ascii_char c0"
    by (auto simp: Cons_eq_map_conv)
  with first.hyps obtain d where d: "unicode_decimal c0 = Some d"
    by (auto simp: digit_class)
  then have "digit_val c = d" using c by (simp add: digit_class_val)
  then show ?case
    using digit_run.first [OF d] b by simp
next
  case (next_digit ds n c)
  from next_digit.prems obtain ds0 c0 where b: "body = ds0 @ [c0]"
    and ds: "ds = map to_ascii_char ds0" and c: "c = to_ascii_char c0"
    by (auto simp: append_eq_map_conv Cons_eq_map_conv)
  with next_digit.hyps(2) obtain d where d: "unicode_decimal c0 = Some d"
    by (auto simp: digit_class)
  then have v: "digit_val c = d" using c by (simp add: digit_class_val)
  have "digit_run ds0 n" using next_digit.IH [OF ds] .
  then show ?case
    using digit_run.next_digit [OF _ d] b v by simp
next
  case (underscore ds n c)
  from underscore.prems obtain ds0 u0 c0 where b: "body = ds0 @ [u0, c0]"
    and ds: "ds = map to_ascii_char ds0" and u: "CHR ''_'' = to_ascii_char u0"
    and c: "c = to_ascii_char c0"
    by (auto simp: append_eq_map_conv Cons_eq_map_conv)
  from u have u0: "u0 = 95" using mark_class(1) [of u0] by simp
  from c underscore.hyps(2) obtain d where d: "unicode_decimal c0 = Some d"
    by (auto simp: digit_class)
  then have v: "digit_val c = d" using c by (simp add: digit_class_val)
  have "digit_run ds0 n" using underscore.IH [OF ds] .
  then show ?case
    using digit_run.underscore [OF _ d] b v u0 by simp
qed

lemma digit_run_members:
  "digit_run body n \<Longrightarrow> c \<in> set body \<Longrightarrow> c = 95 \<or> (\<exists>d. unicode_decimal c = Some d)"
  by (induction rule: digit_run.induct) auto

lemma digit_run_count:
  assumes "digit_run body n"
  shows "length (filter is_digit (map to_ascii_char body)) = length (filter (\<lambda>c. c \<noteq> 95) body)"
proof -
  have "is_digit (to_ascii_char c) \<longleftrightarrow> c \<noteq> 95" if "c \<in> set body" for c
    using digit_run_members [OF assms that]
    by (auto simp: digit_class unicode_decimal_ascii)
  then have "filter (is_digit \<circ> to_ascii_char) body = filter (\<lambda>c. c \<noteq> 95) body"
    by (intro filter_cong) simp_all
  then show ?thesis
    by (simp add: filter_map)
qed

lemma ascii_literal_decoded:
  "ascii_literal (to_ascii_str s) v \<longleftrightarrow> int_literal s v"
proof
  assume "ascii_literal (to_ascii_str s) v"
  then obtain pre' sgn' body' post' n where
    eq: "map to_ascii_char (utf8_decode s) = pre' @ sgn' @ body' @ post'"
    and pre': "\<forall>c \<in> set pre'. is_space c" and post': "\<forall>c \<in> set post'. is_space c"
    and run': "ascii_digit_run body' n" and lim': "length (filter is_digit body') \<le> max_str_digits"
    and sg': "sgn' = [] \<and> v = int n \<or> sgn' = ''+'' \<and> v = int n \<or> sgn' = ''-'' \<and> v = - int n"
    unfolding ascii_literal_def to_ascii_str_def by blast
  from eq obtain pre r1 where 1: "utf8_decode s = pre @ r1" and p: "pre' = map to_ascii_char pre"
    and r1: "sgn' @ body' @ post' = map to_ascii_char r1"
    by (auto simp: map_eq_append_conv)
  from r1 obtain sgn r2 where 2: "r1 = sgn @ r2" and s: "sgn' = map to_ascii_char sgn"
    and r2: "body' @ post' = map to_ascii_char r2"
    by (auto simp: append_eq_map_conv)
  from r2 obtain body post where 3: "r2 = body @ post" and b: "body' = map to_ascii_char body"
    and q: "post' = map to_ascii_char post"
    by (auto simp: append_eq_map_conv)
  have dec: "utf8_decode s = pre @ sgn @ body @ post" using 1 2 3 by simp
  have bl: "\<forall>c \<in> set pre. int_blank c" "\<forall>c \<in> set post. int_blank c"
    using pre' post' p q by (simp_all add: space_class)
  have run: "digit_run body n" using ascii_digit_run_decoded [OF run' b] .
  have lim: "length (filter (\<lambda>c. c \<noteq> 95) body) \<le> max_str_digits"
    using lim' digit_run_count [OF run] b by simp
  have sg: "sgn = [] \<and> v = int n \<or> sgn = [43] \<and> v = int n \<or> sgn = [45] \<and> v = - int n"
    using sg' s by (auto simp: Cons_eq_map_conv mark_class)
  show "int_literal s v"
    unfolding int_literal_def using dec bl run lim sg by blast
next
  assume "int_literal s v"
  then obtain pre sgn body post n where
    dec: "utf8_decode s = pre @ sgn @ body @ post"
    and bl: "\<forall>c \<in> set pre. int_blank c" "\<forall>c \<in> set post. int_blank c"
    and run: "digit_run body n"
    and lim: "length (filter (\<lambda>c. c \<noteq> 95) body) \<le> max_str_digits"
    and sg: "sgn = [] \<and> v = int n \<or> sgn = [43] \<and> v = int n \<or> sgn = [45] \<and> v = - int n"
    unfolding int_literal_def by blast
  let ?f = "map to_ascii_char"
  have eq: "to_ascii_str s = ?f pre @ ?f sgn @ ?f body @ ?f post"
    by (simp add: to_ascii_str_def dec)
  have sp: "\<forall>c \<in> set (?f pre). is_space c" "\<forall>c \<in> set (?f post). is_space c"
    using bl by (simp_all add: space_class)
  have run': "ascii_digit_run (?f body) n" using digit_run_ascii [OF run] .
  have lim': "length (filter is_digit (?f body)) \<le> max_str_digits"
    using lim digit_run_count [OF run] by simp
  have m: "to_ascii_char 43 = CHR ''+''" "to_ascii_char 45 = CHR ''-''"
    by (simp_all add: mark_class)
  from sg have sg': "?f sgn = [] \<and> v = int n \<or> ?f sgn = ''+'' \<and> v = int n
      \<or> ?f sgn = ''-'' \<and> v = - int n"
  proof (elim disjE conjE)
    assume "sgn = []" "v = int n"
    then show ?thesis by simp
  next
    assume "sgn = [43]" "v = int n"
    then show ?thesis by (simp only: list.map m) simp
  next
    assume "sgn = [45]" "v = - int n"
    then show ?thesis by (simp only: list.map m) simp
  qed
  show "ascii_literal (to_ascii_str s) v"
    unfolding ascii_literal_def
  proof (intro exI conjI)
    show "to_ascii_str s = ?f pre @ ?f sgn @ ?f body @ ?f post" by (rule eq)
    show "\<forall>c \<in> set (?f pre). is_space c" by (rule sp(1))
    show "\<forall>c \<in> set (?f post). is_space c" by (rule sp(2))
    show "ascii_digit_run (?f body) n" by (rule run')
    show "length (filter is_digit (?f body)) \<le> max_str_digits" by (rule lim')
    show "?f sgn = [] \<and> v = int n \<or> ?f sgn = ''+'' \<and> v = int n
      \<or> ?f sgn = ''-'' \<and> v = - int n" by (rule sg')
  qed
qed

text \<open>
  The parser and the grammar agree: \<open>int\<close> of a string returns \<open>v\<close> exactly when the
  string is an integer literal for \<open>v\<close>.
\<close>

lemma py_int_str_literal: "py_int_str s = Some v \<longleftrightarrow> int_literal s v"
  using py_int_str_ascii_literal [of s v] ascii_literal_decoded [of s v]
  by (simp only:)

lemma utf8_decode_ascii:
  "\<forall>c \<in> set s. (of_char c :: nat) < 128 \<Longrightarrow> utf8_decode s = map of_char s"
  by (induction s) (simp_all add: utf8_extra_def utf8_lead_bits_def)

lemma to_ascii_str_ascii:
  assumes "\<forall>c \<in> set s. (of_char c :: nat) < 127"
  shows "to_ascii_str s = s"
proof -
  have "utf8_decode s = map of_char s"
    using assms by (intro utf8_decode_ascii) auto
  moreover have "map (\<lambda>c. to_ascii_char (of_char c)) s = map (\<lambda>c. c) s"
    using assms by (intro map_cong) (simp_all add: to_ascii_char_def)
  ultimately show ?thesis
    by (simp add: to_ascii_str_def comp_def)
qed

lemma py_int_str_ascii:
  "\<forall>c \<in> set s. (of_char c :: nat) < 127 \<Longrightarrow> py_int_str s = ascii_int s"
  by (simp add: py_int_str_def to_ascii_str_ascii)

lemmas ascii_int_defs =
  ascii_int_def max_str_digits_def strip_def is_space_def unsigned_value_def is_digit_def
  digit_val_def

lemma py_int_str_too_long:
  assumes "is_digit c" and "max_str_digits < n"
  shows "py_int_str (replicate n c) = None"
proof -
  have "(of_char c :: nat) < 127"
    using assms(1) by (simp add: is_digit_def)
  then have "py_int_str (replicate n c) = ascii_int (replicate n c)"
    by (intro py_int_str_ascii) simp
  then show ?thesis
    using assms by (simp add: ascii_int_def)
qed


subsection \<open>The price normaliser\<close>

lemma str_split_takeWhile:
  "\<exists>ps. str_split sep s = takeWhile (\<lambda>c. c \<noteq> sep) s # ps"
  by (induction s) auto

lemma price_conversion_PStr:
  "price_conversion (PStr s) = Inr (filter is_digit (takeWhile (\<lambda>c. c \<noteq> CHR ''.'') s))"
proof -
  obtain ps where "str_split (CHR ''.'') s = takeWhile (\<lambda>c. c \<noteq> CHR ''.'') s # ps"
    using str_split_takeWhile by blast
  then show ?thesis
    by (simp add: re_sub_non_digits_def)
qed

text \<open>
  C6. For every input string, \<open>price_conversion\<close> returns the digits of the part of the
  input before its first \<open>"."\<close> (of the whole input when it has none): it agrees with the
  specification's normaliser. It returns \<open>"5990"\<close> on \<open>"5'990.00 "\<close> followed by the
  currency suffix and \<open>"."\<close>, \<open>"199"\<close> on
  \<open>"199.99"\<close> and the empty string on \<open>"abc"\<close>. The result is a function of the input
  string alone: the model takes and returns no state.
\<close>

theorem price_conversion_spec:
  "(\<forall>s. price_conversion (PStr s) = Inr (normalizePrice_spec s))
   \<and> price_conversion (PStr (''5'990.00 '' @ rub @ ''.'')) = Inr ''5990''
   \<and> price_conversion (PStr ''199.99'') = Inr ''199''
   \<and> price_conversion (PStr ''abc'') = Inr ''''"
  by (simp add: price_conversion_PStr normalizePrice_spec_def is_digit_def rub_def
        del: price_conversion.simps)

subsection \<open>The batcher\<close>

lemma concat_divide_loop: "0 < n \<Longrightarrow> concat (divide_loop i lst n) = drop i lst"
proof (induction i lst n rule: divide_loop.induct)
  case (1 i lst n)
  show ?case
  proof (cases "i < length lst")
    case True
    have "concat (divide_loop i lst n) = take n (drop i lst) @ concat (divide_loop (i + n) lst n)"
      using True "1.prems" by (subst divide_loop.simps) simp
    also have "\<dots> = take n (drop i lst) @ drop n (drop i lst)"
      using "1.IH" True "1.prems" by (simp add: add.commute)
    finally show ?thesis by (simp only: append_take_drop_id)
  next
    case False
    then show ?thesis by (subst divide_loop.simps) simp
  qed
qed

lemma length_divide_loop: "c \<in> set (divide_loop i lst n) \<Longrightarrow> length c \<le> n \<and> c \<noteq> []"
proof (induction i lst n rule: divide_loop.induct)
  case (1 i lst n)
  show ?case
  proof (cases "0 < n \<and> i < length lst")
    case True
    from "1.prems" have "c = take n (drop i lst) \<or> c \<in> set (divide_loop (i + n) lst n)"
      using True by (subst (asm) divide_loop.simps) simp
    then show ?thesis
      using "1.IH" True by auto
  next
    case False
    with "1.prems" show ?thesis by (subst (asm) divide_loop.simps) simp
  qed
qed

lemma divide_loop_2500:
  assumes "length lst = 2500"
  shows "map length (divide_loop 0 lst 1000) = [1000, 1000, 500]"
proof -
  have a: "divide_loop 0 lst 1000 = take 1000 (drop 0 lst) # divide_loop 1000 lst 1000"
    using assms by (subst divide_loop.simps) simp
  have b: "divide_loop 1000 lst 1000 = take 1000 (drop 1000 lst) # divide_loop 2000 lst 1000"
    using assms by (subst divide_loop.simps) simp
  have c: "divide_loop 2000 lst 1000 = take 1000 (drop 2000 lst) # divide_loop 3000 lst 1000"
    using assms by (subst divide_loop.simps) simp
  have d: "divide_loop 3000 lst 1000 = []"
    using assms by (subst divide_loop.simps) simp
  show ?thesis
    using assms by (simp add: a b c d)
qed

text \<open>
  C7. For every list and every chunk size \<open>n \<ge> 1\<close>, \<open>divide\<close> yields finitely many
  chunks (a list), each of length at most \<open>n\<close>, whose concatenation in order is the
  original list; for a list of 2500 elements and \<open>n = 1000\<close> it yields exactly three
  chunks, of lengths 1000, 1000 and 500.
\<close>

theorem divide_chunks:
  "(1 \<le> n \<longrightarrow>
      (\<exists>cs. divide_lst lst n = Inr cs \<and> concat cs = lst
            \<and> (\<forall>c \<in> set cs. length c \<le> nat n)))
   \<and> (length lst = 2500 \<longrightarrow>
      (\<exists>cs. divide_lst lst 1000 = Inr cs \<and> map length cs = [1000, 1000, 500]))"
  using concat_divide_loop [of "nat n" 0 lst] length_divide_loop [of _ 0 lst "nat n"]
    divide_loop_2500 [of lst]
  by (auto simp: divide_lst_def)

theorem divide_chunks_witness:
  "(1::int) \<le> 1000 \<and> length [1 .. 2500 :: int] = 2500
   \<and> (\<exists>cs. divide_lst [1 .. 2500 :: int] 1000 = Inr cs \<and> concat cs = [1 .. 2500]
          \<and> (\<forall>c \<in> set cs. length c \<le> 1000) \<and> map length cs = [1000, 1000, 500])"
  using divide_chunks [of 1000 "[1 .. 2500 :: int]"] by auto

subsection \<open>The reconciler: the stock loop\<close>

lemma seller_loop_frame:
  "b \<noteq> a \<Longrightarrow> snd (seller_stocks_loop ws a st h) b = h b"
  by (induction ws arbitrary: st h) (auto split: sum.splits)

lemma seller_loop_heap:
  "fst (seller_stocks_loop ws a st h) = Inr st' \<Longrightarrow>
   snd (seller_stocks_loop ws a st h) a = fold remove1 (map code_of ws) (h a)"
proof (induction ws arbitrary: st h)
  case Nil
  then show ?case by simp
next
  case (Cons w ws)
  show ?case
  proof (cases "code_of w \<in> set (h a)")
    case True
    with Cons.prems obtain n where n: "stock_count w = Inr n"
      by (auto split: sum.splits)
    let ?h = "h(a := remove1 (code_of w) (h a))"
    let ?st = "st @ [\<lparr>offer_id = code_of w, stock = n\<rparr>]"
    have "fst (seller_stocks_loop ws a ?st ?h) = Inr st'"
      using Cons.prems True n by simp
    with Cons.IH [of ?st ?h] show ?thesis
      using True n by (simp add: fun_upd_def)
  next
    case False
    then have "fst (seller_stocks_loop ws a st h) = Inr st'"
      using Cons.prems by simp
    from Cons.IH [OF this] show ?thesis
      using False by (simp add: remove1_idem)
  qed
qed

lemma seller_loop_mset:
  "fst (seller_stocks_loop ws a st h) = Inr st' \<Longrightarrow>
   mset (map offer_id st') + mset (snd (seller_stocks_loop ws a st h) a)
     = mset (map offer_id st) + mset (h a)"
proof (induction ws arbitrary: st h)
  case Nil
  then show ?case by simp
next
  case (Cons w ws)
  show ?case
  proof (cases "code_of w \<in> set (h a)")
    case True
    with Cons.prems obtain n where n: "stock_count w = Inr n"
      by (auto split: sum.splits)
    let ?h = "h(a := remove1 (code_of w) (h a))"
    let ?st = "st @ [\<lparr>offer_id = code_of w, stock = n\<rparr>]"
    have "fst (seller_stocks_loop ws a ?st ?h) = Inr st'"
      using Cons.prems True n by simp
    with Cons.IH [of ?st ?h] show ?thesis
      using True n by (simp add: fun_upd_def)
  next
    case False
    then have "fst (seller_stocks_loop ws a st h) = Inr st'"
      using Cons.prems by simp
    from Cons.IH [OF this] show ?thesis
      using False by simp
  qed
qed

lemma seller_loop_prefix:
  "fst (seller_stocks_loop ws a st h) = Inr st' \<Longrightarrow> set st \<subseteq> set st'"
proof (induction ws arbitrary: st h)
  case Nil
  then show ?case by simp
next
  case (Cons w ws)
  show ?case
  proof (cases "code_of w \<in> set (h a)")
    case True
    with Cons.prems obtain n where n: "stock_count w = Inr n"
      by (auto split: sum.splits)
    let ?h = "h(a := remove1 (code_of w) (h a))"
    let ?st = "st @ [\<lparr>offer_id = code_of w, stock = n\<rparr>]"
    have "fst (seller_stocks_loop ws a ?st ?h) = Inr st'"
      using Cons.prems True n by simp
    with Cons.IH [of ?st ?h] show ?thesis by (simp add: fun_upd_def)
  next
    case False
    then have "fst (seller_stocks_loop ws a st h) = Inr st'"
      using Cons.prems by simp
    from Cons.IH [OF this] show ?thesis .
  qed
qed

lemma in_remove1_other: "x \<in> set xs \<Longrightarrow> x \<noteq> y \<Longrightarrow> x \<in> set (remove1 y xs)"
  by (induction xs) auto

lemma seller_loop_matched:
  assumes "fst (seller_stocks_loop ws a st h) = Inr st'"
    and "distinct (map code_of ws)" and "w \<in> set ws" and "code_of w \<in> set (h a)"
  shows "\<exists>n. stock_count w = Inr n \<and> \<lparr>offer_id = code_of w, stock = n\<rparr> \<in> set st'"
  using assms
proof (induction ws arbitrary: st h)
  case Nil
  then show ?case by simp
next
  case (Cons v ws)
  show ?case
  proof (cases "code_of v \<in> set (h a)")
    case True
    with Cons.prems(1) obtain n where n: "stock_count v = Inr n"
      by (auto split: sum.splits)
    let ?h = "h(a := remove1 (code_of v) (h a))"
    let ?st = "st @ [\<lparr>offer_id = code_of v, stock = n\<rparr>]"
    have run: "fst (seller_stocks_loop ws a ?st ?h) = Inr st'"
      using Cons.prems(1) True n by simp
    show ?thesis
    proof (cases "w = v")
      case True
      have "\<lparr>offer_id = code_of v, stock = n\<rparr> \<in> set st'"
        using seller_loop_prefix [OF run] by auto
      with n True show ?thesis by blast
    next
      case False
      then have w: "w \<in> set ws" using Cons.prems(3) by simp
      have "code_of v \<notin> code_of ` set ws" using Cons.prems(2) by simp
      moreover have "code_of w \<in> code_of ` set ws" using w by (rule imageI)
      ultimately have "code_of w \<noteq> code_of v" by metis
      then have "code_of w \<in> set (?h a)"
        using Cons.prems(4) by (simp add: in_remove1_other)
      with Cons.IH [of ?st ?h] run w Cons.prems(2) show ?thesis by (simp add: fun_upd_def)
    qed
  next
    case False
    then have run: "fst (seller_stocks_loop ws a st h) = Inr st'"
      using Cons.prems(1) by simp
    from False Cons.prems(4) have "w \<noteq> v" by auto
    then have "w \<in> set ws" using Cons.prems(3) by simp
    with Cons.IH [OF run] Cons.prems show ?thesis by simp
  qed
qed

lemma fold_remove1_keeps:
  "x \<in> set xs \<Longrightarrow> x \<notin> set cs \<Longrightarrow> x \<in> set (fold remove1 cs xs)"
  by (induction cs arbitrary: xs) (auto simp: in_remove1_other)

lemma length_fold_remove1: "length (fold remove1 cs xs) \<le> length xs"
proof (induction cs arbitrary: xs)
  case Nil
  then show ?case by simp
next
  case (Cons c cs)
  have "length (fold remove1 cs (remove1 c xs)) \<le> length (remove1 c xs)"
    by (rule Cons.IH)
  also have "\<dots> \<le> length xs"
    by (simp add: length_remove1)
  finally show ?case by simp
qed

lemma fold_remove1_same:
  "fold remove1 cs xs = xs \<longleftrightarrow> (\<forall>c \<in> set cs. c \<notin> set xs)"
proof (induction cs arbitrary: xs)
  case Nil
  then show ?case by simp
next
  case (Cons c cs)
  show ?case
  proof (cases "c \<in> set xs")
    case True
    have "length (fold remove1 cs (remove1 c xs)) \<le> length (remove1 c xs)"
      by (rule length_fold_remove1)
    also have "\<dots> < length xs"
      using True by (simp add: length_remove1) (cases xs; simp)
    finally have "fold remove1 (c # cs) xs \<noteq> xs" by auto
    with True show ?thesis by auto
  next
    case False
    then show ?thesis using Cons.IH [of xs] by (simp add: remove1_idem)
  qed
qed

lemma market_loop_sim:
  "market_stocks_loop ws a wh d (map (to_market wh d) st) h =
     (map_sum id (map (to_market wh d)) (fst (seller_stocks_loop ws a st h)),
      snd (seller_stocks_loop ws a st h))"
proof (induction ws arbitrary: st h)
  case Nil
  then show ?case by simp
next
  case (Cons w ws)
  show ?case
  proof (cases "code_of w \<in> set (h a)")
    case True
    show ?thesis
    proof (cases "stock_count w")
      case (Inl e)
      with True show ?thesis by simp
    next
      case (Inr n)
      let ?h = "h(a := remove1 (code_of w) (h a))"
      let ?st = "st @ [\<lparr>offer_id = code_of w, stock = n\<rparr>]"
      have "map (to_market wh d) ?st = map (to_market wh d) st @ [market_entry wh d (code_of w) n]"
        by (simp add: to_market_def)
      with Cons.IH [of ?st ?h] True Inr show ?thesis by (simp add: fun_upd_def)
    qed
  next
    case False
    with Cons.IH [of st h] show ?thesis by simp
  qed
qed

lemma market_create_stocks_sim:
  "market_create_stocks ws a wh d h =
     (map_sum id (map (to_market wh d)) (fst (seller_create_stocks ws a h)),
      snd (seller_create_stocks ws a h))"
proof -
  have "market_stocks_loop ws a wh d [] h =
     (map_sum id (map (to_market wh d)) (fst (seller_stocks_loop ws a [] h)),
      snd (seller_stocks_loop ws a [] h))"
    using market_loop_sim [of ws a wh d "[]" h] by simp
  then show ?thesis
    by (cases "seller_stocks_loop ws a [] h")
       (auto simp: market_create_stocks_def seller_create_stocks_def to_market_def
             split: sum.splits)
qed

lemma seller_create_stocks_frame:
  "b \<noteq> a \<Longrightarrow> snd (seller_create_stocks ws a h) b = h b"
  using seller_loop_frame [of b a ws "[]" h]
  by (cases "seller_stocks_loop ws a [] h") (auto simp: seller_create_stocks_def split: sum.splits)

lemma seller_create_stocks_Inr:
  "fst (seller_create_stocks ws a h) = Inr stocks \<Longrightarrow>
   \<exists>st. fst (seller_stocks_loop ws a [] h) = Inr st
      \<and> snd (seller_create_stocks ws a h) = snd (seller_stocks_loop ws a [] h)
      \<and> stocks = st @ map (\<lambda>i. \<lparr>offer_id = i, stock = 0\<rparr>) (snd (seller_stocks_loop ws a [] h) a)"
  by (cases "seller_stocks_loop ws a [] h") (auto simp: seller_create_stocks_def split: sum.splits)

lemma seller_create_stocks_heap:
  assumes "fst (seller_create_stocks ws a h) = Inr stocks"
  shows "snd (seller_create_stocks ws a h) a = fold remove1 (map code_of ws) (h a)"
proof -
  from seller_create_stocks_Inr [OF assms] obtain st where
    st: "fst (seller_stocks_loop ws a [] h) = Inr st"
    and h': "snd (seller_create_stocks ws a h) = snd (seller_stocks_loop ws a [] h)"
    by blast
  show ?thesis
    using seller_loop_heap [OF st] h' by simp
qed

lemma seller_create_stocks_mset:
  assumes "fst (seller_create_stocks ws a h) = Inr stocks"
  shows "mset (map offer_id stocks) = mset (h a)"
proof -
  from seller_create_stocks_Inr [OF assms] obtain st where
    st: "fst (seller_stocks_loop ws a [] h) = Inr st"
    and stocks: "stocks = st @ map (\<lambda>i. \<lparr>offer_id = i, stock = 0\<rparr>) (snd (seller_stocks_loop ws a [] h) a)"
    by blast
  have "map offer_id stocks = map offer_id st @ snd (seller_stocks_loop ws a [] h) a"
    by (simp add: stocks comp_def)
  then show ?thesis
    using seller_loop_mset [OF st] by simp
qed

lemma seller_prices_loop_ids:
  "seller_prices_loop ws ids ps = Inr ps' \<Longrightarrow>
   map price_offer_id ps' = map price_offer_id ps @ filter (\<lambda>c. c \<in> set ids) (map code_of ws)"
proof (induction ws arbitrary: ps)
  case Nil
  then show ?case by simp
next
  case (Cons w ws)
  show ?case
  proof (cases "code_of w \<in> set ids")
    case True
    with Cons.prems obtain p where p: "price_conversion (dict_get w Tsena) = Inr p"
      by (auto split: sum.splits)
    let ?ps = "ps @ [\<lparr>auto_action_enabled = ''UNKNOWN'', currency_code = ''RUB'',
                    price_offer_id = code_of w, old_price = ''0'', price = p\<rparr>]"
    have "seller_prices_loop ws ids ?ps = Inr ps'"
      using Cons.prems True p by simp
    from Cons.IH [OF this] show ?thesis using True by simp
  next
    case False
    then have "seller_prices_loop ws ids ps = Inr ps'" using Cons.prems by simp
    from Cons.IH [OF this] show ?thesis using False by simp
  qed
qed

subsection \<open>The caller's list of offer ids\<close>

lemmas scenario_defs =
  scenario_record_def scenario_heap_def heap_of_def dict_get_def stock_count_def
  Kod_def Kolichestvo_def Tsena_def rub_def

lemma market_create_stocks_Inr:
  "fst (market_create_stocks ws a wh d h) = Inr ms \<Longrightarrow>
   \<exists>stocks. fst (seller_create_stocks ws a h) = Inr stocks"
  by (cases "fst (seller_create_stocks ws a h)") (simp_all add: market_create_stocks_sim)

lemma market_create_stocks_snd:
  "snd (market_create_stocks ws a wh d h) = snd (seller_create_stocks ws a h)"
  by (simp add: market_create_stocks_sim)

text \<open>
  The claim C1 as stated fails: in the end-to-end scenario the caller's list
  \<open>["X", "Y"]\<close> is \<open>["Y"]\<close> after the call.
\<close>

theorem create_stocks_changes_callers_list_counterexample:
  "scenario_heap 0 = [''X'', ''Y'']
   \<and> snd (seller_create_stocks [scenario_record] 0 scenario_heap) 0 = [''Y'']"
  by (simp add: seller_create_stocks_def scenario_defs)

text \<open>
  C1 (as amended). \<open>create_stocks\<close> has no working copy: it removes from the very list
  object the caller passed. After a call that returns, the caller's list is the list
  before the call with, for each record in turn, the first occurrence of the record's
  code removed; it is unchanged exactly when no record's code occurs in it. Lists at
  other references are never changed. This holds for both marketplace variants.
\<close>

theorem create_stocks_removes_matched_ids:
  "(fst (seller_create_stocks recs a h) = Inr stocks \<longrightarrow>
      snd (seller_create_stocks recs a h) a = fold remove1 (map code_of recs) (h a)
      \<and> (snd (seller_create_stocks recs a h) a = h a
           \<longleftrightarrow> (\<forall>w \<in> set recs. code_of w \<notin> set (h a))))
   \<and> (fst (market_create_stocks recs a wh d h) = Inr mstocks \<longrightarrow>
      snd (market_create_stocks recs a wh d h) a = fold remove1 (map code_of recs) (h a)
      \<and> (snd (market_create_stocks recs a wh d h) a = h a
           \<longleftrightarrow> (\<forall>w \<in> set recs. code_of w \<notin> set (h a))))
   \<and> (\<forall>b. b \<noteq> a \<longrightarrow>
         snd (seller_create_stocks recs a h) b = h b
         \<and> snd (market_create_stocks recs a wh d h) b = h b)"
proof (intro conjI impI allI)
  assume ok: "fst (seller_create_stocks recs a h) = Inr stocks"
  show s: "snd (seller_create_stocks recs a h) a = fold remove1 (map code_of recs) (h a)"
    by (rule seller_create_stocks_heap [OF ok])
  show "snd (seller_create_stocks recs a h) a = h a
          \<longleftrightarrow> (\<forall>w \<in> set recs. code_of w \<notin> set (h a))"
    using fold_remove1_same [of "map code_of recs" "h a"] by (simp add: s)
next
  assume "fst (market_create_stocks recs a wh d h) = Inr mstocks"
  then obtain stocks where ok: "fst (seller_create_stocks recs a h) = Inr stocks"
    using market_create_stocks_Inr by blast
  show s: "snd (market_create_stocks recs a wh d h) a = fold remove1 (map code_of recs) (h a)"
    using seller_create_stocks_heap [OF ok] by (simp add: market_create_stocks_snd)
  show "snd (market_create_stocks recs a wh d h) a = h a
          \<longleftrightarrow> (\<forall>w \<in> set recs. code_of w \<notin> set (h a))"
    using fold_remove1_same [of "map code_of recs" "h a"] by (simp add: s)
next
  fix b assume "b \<noteq> a"
  then show "snd (seller_create_stocks recs a h) b = h b"
    by (rule seller_create_stocks_frame)
  with \<open>b \<noteq> a\<close> show "snd (market_create_stocks recs a wh d h) b = h b"
    by (simp add: market_create_stocks_snd)
qed

theorem create_stocks_removes_matched_ids_witness:
  "fst (seller_create_stocks [scenario_record] 0 scenario_heap)
     = Inr [\<lparr>offer_id = ''X'', stock = 100\<rparr>, \<lparr>offer_id = ''Y'', stock = 0\<rparr>]
   \<and> fst (market_create_stocks [scenario_record] 0 ''wh'' ''2024'' scenario_heap)
     = Inr [market_entry ''wh'' ''2024'' ''X'' 100, market_entry ''wh'' ''2024'' ''Y'' 0]
   \<and> snd (seller_create_stocks [scenario_record] 0 scenario_heap) 0
     = fold remove1 (map code_of [scenario_record]) (scenario_heap 0)
   \<and> snd (market_create_stocks [scenario_record] 0 ''wh'' ''2024'' scenario_heap) 0
     = fold remove1 (map code_of [scenario_record]) (scenario_heap 0)
   \<and> snd (seller_create_stocks [scenario_record] 0 scenario_heap) 0 \<noteq> scenario_heap 0
   \<and> (1::nat) \<noteq> 0
   \<and> snd (seller_create_stocks [scenario_record] 0 scenario_heap) 1 = scenario_heap 1
   \<and> snd (market_create_stocks [scenario_record] 0 ''wh'' ''2024'' scenario_heap) 1 = scenario_heap 1"
proof -
  have s: "fst (seller_create_stocks [scenario_record] 0 scenario_heap)
     = Inr [\<lparr>offer_id = ''X'', stock = 100\<rparr>, \<lparr>offer_id = ''Y'', stock = 0\<rparr>]"
    by (simp add: seller_create_stocks_def scenario_defs)
  have m: "fst (market_create_stocks [scenario_record] 0 ''wh'' ''2024'' scenario_heap)
     = Inr [market_entry ''wh'' ''2024'' ''X'' 100, market_entry ''wh'' ''2024'' ''Y'' 0]"
    by (simp add: market_create_stocks_def scenario_defs)
  have x: "code_of scenario_record \<in> set (scenario_heap 0)"
    by (simp add: scenario_defs)
  show ?thesis
    using create_stocks_removes_matched_ids
      [of "[scenario_record]" 0 scenario_heap
          "[\<lparr>offer_id = ''X'', stock = 100\<rparr>, \<lparr>offer_id = ''Y'', stock = 0\<rparr>]"
          "''wh''" "''2024''"
          "[market_entry ''wh'' ''2024'' ''X'' 100, market_entry ''wh'' ''2024'' ''Y'' 0]"]
      s m x
    by auto
qed

subsection \<open>Every catalog id gets a stock entry\<close>

lemma seller_create_stocks_matched:
  assumes ok: "fst (seller_create_stocks ws a h) = Inr stocks"
    and d: "distinct (map code_of ws)" and w: "w \<in> set ws" and c: "code_of w \<in> set (h a)"
  shows "\<exists>n. stock_count w = Inr n \<and> \<lparr>offer_id = code_of w, stock = n\<rparr> \<in> set stocks"
proof -
  from seller_create_stocks_Inr [OF ok] obtain st where
    st: "fst (seller_stocks_loop ws a [] h) = Inr st"
    and stocks: "stocks = st @ map (\<lambda>i. \<lparr>offer_id = i, stock = 0\<rparr>) (snd (seller_stocks_loop ws a [] h) a)"
    by blast
  from seller_loop_matched [OF st d w c] show ?thesis
    by (auto simp: stocks)
qed

lemma seller_create_stocks_unmatched:
  assumes ok: "fst (seller_create_stocks ws a h) = Inr stocks"
    and i: "i \<in> set (h a)" and n: "i \<notin> code_of ` set ws"
  shows "\<lparr>offer_id = i, stock = 0\<rparr> \<in> set stocks"
proof -
  from seller_create_stocks_Inr [OF ok] obtain st where
    st: "fst (seller_stocks_loop ws a [] h) = Inr st"
    and stocks: "stocks = st @ map (\<lambda>i. \<lparr>offer_id = i, stock = 0\<rparr>) (snd (seller_stocks_loop ws a [] h) a)"
    by blast
  have "i \<in> set (fold remove1 (map code_of ws) (h a))"
    using i n by (intro fold_remove1_keeps) auto
  then have "i \<in> set (snd (seller_stocks_loop ws a [] h) a)"
    using seller_loop_heap [OF st] by simp
  then show ?thesis by (simp add: stocks)
qed

lemma count_list_distinct_mset:
  assumes "mset xs = mset ys" and "distinct ys" and "i \<in> set ys"
  shows "count_list xs i = 1"
proof -
  have "count (mset ys) i = 1"
    using assms(2,3) by (simp add: distinct_count_atmost_1)
  then show ?thesis
    using assms(1) by (metis count_mset)
qed

text \<open>
  The claim C3 as stated, for every catalog list, fails where the catalog repeats an
  id: with catalog \<open>["A", "A"]\<close> and one record of code \<open>"A"\<close> and quantity \<open>"5"\<close> the
  stock list has two entries for \<open>"A"\<close>, the second with count 0 although a record's
  code equals it.
\<close>

theorem stock_list_covers_catalog_counterexample:
  "distinct (map code_of [map_of [(Kod, PStr ''A''), (Kolichestvo, PStr ''5'')]])
   \<and> fst (seller_create_stocks [map_of [(Kod, PStr ''A''), (Kolichestvo, PStr ''5'')]] 0
            (heap_of [(0, [''A'', ''A''])]))
       = Inr [\<lparr>offer_id = ''A'', stock = 5\<rparr>, \<lparr>offer_id = ''A'', stock = 0\<rparr>]
   \<and> count_list (map offer_id [\<lparr>offer_id = ''A'', stock = 5\<rparr>, \<lparr>offer_id = ''A'', stock = 0\<rparr>]) ''A'' = 2"
  by (simp add: seller_create_stocks_def heap_of_def dict_get_def stock_count_def
        Kod_def Kolichestvo_def py_int_str_ascii ascii_int_defs)

text \<open>
  C3 (as amended). For every records list with pairwise-distinct codes and every catalog
  list, when \<open>create_stocks\<close> returns, each offer id occurs in the stock list as often as
  in the catalog, so the two lengths are equal, and exactly once when the catalog
  repeats no id; every record whose code is in the catalog has an entry with its mapped
  count, and every catalog id that is no record's code has an entry with count 0. When
  \<open>create_prices\<close> returns, the price list has exactly one entry per record whose code is
  in the catalog, in the order of the records, and no other entry.
\<close>

theorem stock_list_covers_catalog:
  assumes "distinct (map code_of recs)"
  shows "(fst (seller_create_stocks recs a h) = Inr stocks \<longrightarrow>
            mset (map offer_id stocks) = mset (h a)
            \<and> length stocks = length (h a)
            \<and> (distinct (h a) \<longrightarrow> (\<forall>i \<in> set (h a). count_list (map offer_id stocks) i = 1))
            \<and> (\<forall>w \<in> set recs. code_of w \<in> set (h a) \<longrightarrow>
                  (\<exists>n. stock_count w = Inr n
                       \<and> \<lparr>offer_id = code_of w, stock = n\<rparr> \<in> set stocks))
            \<and> (\<forall>i \<in> set (h a). i \<notin> code_of ` set recs \<longrightarrow>
                  \<lparr>offer_id = i, stock = 0\<rparr> \<in> set stocks))
         \<and> (seller_create_prices recs a h = Inr prices \<longrightarrow>
            map price_offer_id prices = filter (\<lambda>c. c \<in> set (h a)) (map code_of recs))"
proof (intro conjI impI ballI)
  assume ok: "fst (seller_create_stocks recs a h) = Inr stocks"
  show m: "mset (map offer_id stocks) = mset (h a)"
    by (rule seller_create_stocks_mset [OF ok])
  from m have "size (mset (map offer_id stocks)) = size (mset (h a))" by simp
  then show "length stocks = length (h a)" by simp
  { fix i assume "distinct (h a)" and "i \<in> set (h a)"
    then show "count_list (map offer_id stocks) i = 1"
      using m by (intro count_list_distinct_mset) }
  { fix w assume "w \<in> set recs" and "code_of w \<in> set (h a)"
    then show "\<exists>n. stock_count w = Inr n \<and> \<lparr>offer_id = code_of w, stock = n\<rparr> \<in> set stocks"
      using seller_create_stocks_matched [OF ok assms] by blast }
  { fix i assume "i \<in> set (h a)" and "i \<notin> code_of ` set recs"
    then show "\<lparr>offer_id = i, stock = 0\<rparr> \<in> set stocks"
      by (rule seller_create_stocks_unmatched [OF ok]) }
next
  assume "seller_create_prices recs a h = Inr prices"
  then show "map price_offer_id prices = filter (\<lambda>c. c \<in> set (h a)) (map code_of recs)"
    using seller_prices_loop_ids [of recs "h a" "[]" prices]
    by (simp add: seller_create_prices_def)
qed

theorem stock_list_covers_catalog_witness:
  "distinct (map code_of [scenario_record])
   \<and> fst (seller_create_stocks [scenario_record] 0 scenario_heap)
       = Inr [\<lparr>offer_id = ''X'', stock = 100\<rparr>, \<lparr>offer_id = ''Y'', stock = 0\<rparr>]
   \<and> seller_create_prices [scenario_record] 0 scenario_heap
       = Inr [\<lparr>auto_action_enabled = ''UNKNOWN'', currency_code = ''RUB'',
               price_offer_id = ''X'', old_price = ''0'', price = ''1000''\<rparr>]
   \<and> distinct (scenario_heap 0)
   \<and> mset (map offer_id [\<lparr>offer_id = ''X'', stock = 100\<rparr>, \<lparr>offer_id = ''Y'', stock = 0\<rparr>])
       = mset (scenario_heap 0)
   \<and> count_list (map offer_id [\<lparr>offer_id = ''X'', stock = 100\<rparr>, \<lparr>offer_id = ''Y'', stock = 0\<rparr>]) ''Y'' = 1
   \<and> map price_offer_id [\<lparr>auto_action_enabled = ''UNKNOWN'', currency_code = ''RUB'',
               price_offer_id = ''X'', old_price = ''0'', price = ''1000''\<rparr>]
       = filter (\<lambda>c. c \<in> set (scenario_heap 0)) (map code_of [scenario_record])"
proof -
  have d: "distinct (map code_of [scenario_record])" by simp
  have s: "fst (seller_create_stocks [scenario_record] 0 scenario_heap)
       = Inr [\<lparr>offer_id = ''X'', stock = 100\<rparr>, \<lparr>offer_id = ''Y'', stock = 0\<rparr>]"
    by (simp add: seller_create_stocks_def scenario_defs)
  have p: "seller_create_prices [scenario_record] 0 scenario_heap
       = Inr [\<lparr>auto_action_enabled = ''UNKNOWN'', currency_code = ''RUB'',
               price_offer_id = ''X'', old_price = ''0'', price = ''1000''\<rparr>]"
    by (simp add: seller_create_prices_def scenario_defs re_sub_non_digits_def is_digit_def)
  have h: "scenario_heap 0 = [''X'', ''Y'']" by (simp add: scenario_defs)
  have c: "code_of scenario_record = ''X''" by (simp add: scenario_defs)
  show ?thesis
    using stock_list_covers_catalog [OF d, of 0 scenario_heap
        "[\<lparr>offer_id = ''X'', stock = 100\<rparr>, \<lparr>offer_id = ''Y'', stock = 0\<rparr>]"
        "[\<lparr>auto_action_enabled = ''UNKNOWN'', currency_code = ''RUB'',
               price_offer_id = ''X'', old_price = ''0'', price = ''1000''\<rparr>]"]
      d s p h
    by (simp add: c)
qed

subsection \<open>Running the reconcile step twice\<close>

lemma seller_loop_local:
  "h1 a = h2 b \<Longrightarrow>
   fst (seller_stocks_loop ws a st h1) = fst (seller_stocks_loop ws b st h2)
   \<and> snd (seller_stocks_loop ws a st h1) a = snd (seller_stocks_loop ws b st h2) b"
proof (induction ws arbitrary: st h1 h2)
  case Nil
  then show ?case by simp
next
  case (Cons w ws)
  show ?case
  proof (cases "code_of w \<in> set (h1 a)")
    case True
    show ?thesis
    proof (cases "stock_count w")
      case (Inl e)
      with True Cons.prems show ?thesis by simp
    next
      case (Inr n)
      let ?st = "st @ [\<lparr>offer_id = code_of w, stock = n\<rparr>]"
      let ?h1 = "h1(a := remove1 (code_of w) (h1 a))"
      let ?h2 = "h2(b := remove1 (code_of w) (h2 b))"
      have "?h1 a = ?h2 b" using Cons.prems by simp
      with Cons.IH [of ?h1 ?h2 ?st] show ?thesis
        using True Inr Cons.prems by (simp add: fun_upd_def)
    qed
  next
    case False
    with Cons.IH [of h1 h2 st] Cons.prems show ?thesis by simp
  qed
qed

lemma seller_create_stocks_local:
  assumes "h1 a = h2 b"
  shows "fst (seller_create_stocks ws a h1) = fst (seller_create_stocks ws b h2)
   \<and> snd (seller_create_stocks ws a h1) a = snd (seller_create_stocks ws b h2) b"
  using seller_loop_local [of h1 a h2 b ws "[]"] assms
  by (cases "seller_stocks_loop ws a [] h1"; cases "seller_stocks_loop ws b [] h2")
     (auto simp: seller_create_stocks_def split: sum.splits)

lemma seller_reconcile_local:
  assumes "h1 a = h2 b"
  shows "fst (seller_reconcile ws a h1) = fst (seller_reconcile ws b h2)"
  using seller_create_stocks_local [of h1 a h2 b ws] assms
  by (cases "seller_create_stocks ws a h1"; cases "seller_create_stocks ws b h2")
     (auto simp: seller_reconcile_def seller_create_prices_def split: sum.splits)

lemma seller_reconcile_frame:
  "b \<noteq> a \<Longrightarrow> snd (seller_reconcile ws a h) b = h b"
  using seller_create_stocks_frame [of b a ws h]
  by (cases "seller_create_stocks ws a h")
     (auto simp: seller_reconcile_def split: sum.splits)

text \<open>
  The claim C9 as stated fails where the second run receives the list object of the
  first: in the end-to-end scenario the first run returns the stock list for \<open>"X"\<close> and
  \<open>"Y"\<close>, the second run, on the list the first run left, only the entry for \<open>"Y"\<close>.
\<close>

theorem reconcile_twice_same_list_counterexample:
  "fst (seller_reconcile [scenario_record] 0 scenario_heap)
     = Inr ([\<lparr>offer_id = ''X'', stock = 100\<rparr>, \<lparr>offer_id = ''Y'', stock = 0\<rparr>], [])
   \<and> fst (seller_reconcile [scenario_record] 0
            (snd (seller_reconcile [scenario_record] 0 scenario_heap)))
     = Inr ([\<lparr>offer_id = ''Y'', stock = 0\<rparr>], [])"
  by (simp add: seller_reconcile_def seller_create_stocks_def seller_create_prices_def
        scenario_defs)

text \<open>
  C9 (as amended). Running the reconcile step twice with the same records, the second
  run on a catalog list object of its own that holds the same offer ids as the list of
  the first run held, produces the same output (the same stock list and price list, in
  the same order, or the same error) both times.
\<close>

theorem reconcile_twice_equal_lists:
  assumes "b \<noteq> a" and "h b = h a"
  shows "fst (seller_reconcile recs b (snd (seller_reconcile recs a h)))
           = fst (seller_reconcile recs a h)"
proof -
  have "snd (seller_reconcile recs a h) b = h a"
    using seller_reconcile_frame [OF assms(1)] assms(2) by simp
  then show ?thesis
    using seller_reconcile_local [of "snd (seller_reconcile recs a h)" b h a recs] by simp
qed

theorem reconcile_twice_equal_lists_witness:
  "(1::nat) \<noteq> 0
   \<and> heap_of [(0, [''X'', ''Y'']), (1, [''X'', ''Y''])] 1
       = heap_of [(0, [''X'', ''Y'']), (1, [''X'', ''Y''])] 0
   \<and> fst (seller_reconcile [scenario_record] 1
            (snd (seller_reconcile [scenario_record] 0
                    (heap_of [(0, [''X'', ''Y'']), (1, [''X'', ''Y''])]))))
       = fst (seller_reconcile [scenario_record] 0
                (heap_of [(0, [''X'', ''Y'']), (1, [''X'', ''Y''])]))
   \<and> fst (seller_reconcile [scenario_record] 0
                (heap_of [(0, [''X'', ''Y'']), (1, [''X'', ''Y''])]))
       = Inr ([\<lparr>offer_id = ''X'', stock = 100\<rparr>, \<lparr>offer_id = ''Y'', stock = 0\<rparr>], [])"
proof -
  have n: "(1::nat) \<noteq> 0" by simp
  have e: "heap_of [(0, [''X'', ''Y'']), (1, [''X'', ''Y''])] 1
       = heap_of [(0, [''X'', ''Y'']), (1, [''X'', ''Y''])] 0"
    by (simp add: heap_of_def)
  have v: "fst (seller_reconcile [scenario_record] 0
                (heap_of [(0, [''X'', ''Y'']), (1, [''X'', ''Y''])]))
       = Inr ([\<lparr>offer_id = ''X'', stock = 100\<rparr>, \<lparr>offer_id = ''Y'', stock = 0\<rparr>], [])"
    by (simp add: seller_reconcile_def seller_create_stocks_def seller_create_prices_def
          scenario_defs)
  show ?thesis
    using reconcile_twice_equal_lists [OF n e, of "[scenario_record]"] n e v by simp
qed

subsection \<open>A price without digits\<close>

lemma py_int_empty: "py_int (PStr '''') = Inl ValueError"
  by (simp add: py_int_str_ascii ascii_int_def strip_def max_str_digits_def)

lemma market_prices_loop_fails:
  assumes "w \<in> set ws" and "code_of w \<in> set ids" and "dict_get w Tsena = PStr p"
    and "\<forall>c \<in> set (takeWhile (\<lambda>c. c \<noteq> CHR ''.'') p). \<not> is_digit c"
  shows "\<exists>e. market_prices_loop ws ids ps = Inl e"
  using assms(1)
proof (induction ws arbitrary: ps)
  case Nil
  then show ?case by simp
next
  case (Cons v ws)
  show ?case
  proof (cases "v = w")
    case True
    have "filter is_digit (takeWhile (\<lambda>c. c \<noteq> CHR ''.'') p) = []"
      using assms(4) by (simp add: filter_empty_conv)
    then have "price_conversion (dict_get w Tsena) = Inr ''''"
      by (simp add: assms(3) price_conversion_PStr del: price_conversion.simps)
    then show ?thesis
      using True assms(2) by (simp add: py_int_empty del: py_int.simps)
  next
    case False
    then have "w \<in> set ws" using Cons.prems by simp
    then have ih: "\<And>ps. \<exists>e. market_prices_loop ws ids ps = Inl e" by (rule Cons.IH)
    show ?thesis
      using ih by (auto split: sum.splits)
  qed
qed

lemma market_prices_loop_error:
  assumes "\<forall>v \<in> set ws. code_of v \<in> set ids \<longrightarrow> (\<exists>s. dict_get v Tsena = PStr s)"
    and "market_prices_loop ws ids ps = Inl e"
  shows "e = ValueError"
  using assms
proof (induction ws arbitrary: ps)
  case Nil
  then show ?case by simp
next
  case (Cons v ws)
  show ?case
  proof (cases "code_of v \<in> set ids")
    case True
    then obtain s where s: "dict_get v Tsena = PStr s" using Cons.prems(1) by auto
    have pc: "price_conversion (dict_get v Tsena) = Inr (normalizePrice_spec s)"
      by (simp add: s price_conversion_PStr normalizePrice_spec_def del: price_conversion.simps)
    show ?thesis
    proof (cases "py_int_str (normalizePrice_spec s)")
      case None
      then show ?thesis using Cons.prems(2) True pc by simp
    next
      case (Some i)
      then show ?thesis using Cons.prems Cons.IH True pc by simp
    qed
  next
    case False
    then show ?thesis using Cons.prems Cons.IH by simp
  qed
qed

lemma seller_prices_loop_ok:
  assumes "\<forall>v \<in> set ws. code_of v \<in> set ids \<longrightarrow> (\<exists>s. dict_get v Tsena = PStr s)"
  shows "\<exists>ps'. seller_prices_loop ws ids ps = Inr ps' \<and> set ps \<subseteq> set ps'
    \<and> (\<forall>v \<in> set ws. \<forall>s. code_of v \<in> set ids \<and> dict_get v Tsena = PStr s \<longrightarrow>
          \<lparr>auto_action_enabled = ''UNKNOWN'', currency_code = ''RUB'',
           price_offer_id = code_of v, old_price = ''0'',
           price = normalizePrice_spec s\<rparr> \<in> set ps')"
  using assms
proof (induction ws arbitrary: ps)
  case Nil
  then show ?case by simp
next
  case (Cons v ws)
  from Cons.prems have typed: "\<forall>v \<in> set ws. code_of v \<in> set ids \<longrightarrow> (\<exists>s. dict_get v Tsena = PStr s)"
    by simp
  show ?case
  proof (cases "code_of v \<in> set ids")
    case True
    then obtain s where s: "dict_get v Tsena = PStr s" using Cons.prems by auto
    have pc: "price_conversion (dict_get v Tsena) = Inr (normalizePrice_spec s)"
      by (simp add: s price_conversion_PStr normalizePrice_spec_def del: price_conversion.simps)
    let ?e = "\<lparr>auto_action_enabled = ''UNKNOWN'', currency_code = ''RUB'',
           price_offer_id = code_of v, old_price = ''0'',
           price = normalizePrice_spec s\<rparr>"
    from Cons.IH [OF typed, of "ps @ [?e]"] obtain ps' where
      run: "seller_prices_loop ws ids (ps @ [?e]) = Inr ps'"
      and sub: "set (ps @ [?e]) \<subseteq> set ps'"
      and ent: "\<forall>v \<in> set ws. \<forall>s. code_of v \<in> set ids \<and> dict_get v Tsena = PStr s \<longrightarrow>
          \<lparr>auto_action_enabled = ''UNKNOWN'', currency_code = ''RUB'',
           price_offer_id = code_of v, old_price = ''0'',
           price = normalizePrice_spec s\<rparr> \<in> set ps'"
      by blast
    have "seller_prices_loop (v # ws) ids ps = Inr ps'"
      using True pc run by simp
    moreover have "set ps \<subseteq> set ps'" using sub by simp
    moreover have "?e \<in> set ps'" using sub by simp
    ultimately show ?thesis
      using ent s by auto
  next
    case False
    from Cons.IH [OF typed, of ps] show ?thesis
      using False by auto
  qed
qed

lemma market_prices_loop_error_kind:
  "market_prices_loop ws ids ps = Inl e \<Longrightarrow> e = ValueError \<or> e = AttributeError"
proof (induction ws arbitrary: ps)
  case Nil
  then show ?case by simp
next
  case (Cons v ws)
  show ?case
  proof (cases "code_of v \<in> set ids")
    case True
    show ?thesis
    proof (cases "dict_get v Tsena")
      case PNone
      then show ?thesis using Cons.prems True by simp
    next
      case (PInt i)
      then show ?thesis using Cons.prems True by simp
    next
      case (PStr s)
      have pc: "price_conversion (dict_get v Tsena) = Inr (normalizePrice_spec s)"
        by (simp add: PStr price_conversion_PStr normalizePrice_spec_def
              del: price_conversion.simps)
      show ?thesis
      proof (cases "py_int_str (normalizePrice_spec s)")
        case None
        then show ?thesis using Cons.prems True pc by simp
      next
        case (Some i)
        then show ?thesis using Cons.prems Cons.IH True pc by simp
      qed
    qed
  next
    case False
    then show ?thesis using Cons.prems Cons.IH by simp
  qed
qed

lemma seller_prices_loop_typed:
  "seller_prices_loop ws ids ps = Inr ps' \<Longrightarrow> v \<in> set ws \<Longrightarrow> code_of v \<in> set ids \<Longrightarrow>
   \<exists>s. dict_get v Tsena = PStr s"
proof (induction ws arbitrary: ps)
  case Nil
  then show ?case by simp
next
  case (Cons u ws)
  show ?case
  proof (cases "code_of u \<in> set ids")
    case True
    with Cons.prems(1) obtain p where p: "price_conversion (dict_get u Tsena) = Inr p"
      by (auto split: sum.splits)
    then have typed: "\<exists>s. dict_get u Tsena = PStr s"
      by (cases "dict_get u Tsena") simp_all
    let ?ps = "ps @ [\<lparr>auto_action_enabled = ''UNKNOWN'', currency_code = ''RUB'',
                    price_offer_id = code_of u, old_price = ''0'', price = p\<rparr>]"
    have run: "seller_prices_loop ws ids ?ps = Inr ps'"
      using Cons.prems(1) True p by simp
    show ?thesis
    proof (cases "v = u")
      case True
      then show ?thesis using typed by simp
    next
      case False
      then have "v \<in> set ws" using Cons.prems(2) by simp
      from Cons.IH [OF run this Cons.prems(3)] show ?thesis .
    qed
  next
    case False
    then have run: "seller_prices_loop ws ids ps = Inr ps'" using Cons.prems(1) by simp
    from False Cons.prems(3) have "v \<noteq> u" by auto
    then have "v \<in> set ws" using Cons.prems(2) by simp
    from Cons.IH [OF run this Cons.prems(3)] show ?thesis .
  qed
qed

text \<open>
  The claim C10 as stated fails in its Ozon half: with the record of price \<open>"abc"\<close>
  followed by a matched record whose price cell is the number 1000, the claim's
  conditions hold (the first record is in the list, its code is in the catalog, its
  price normalises to the empty string), yet the Ozon \<open>create_prices\<close> does not
  succeed: it raises \<open>AttributeError\<close>.
\<close>

theorem ozon_create_prices_fails_counterexample:
  "priceless_record \<in> set [priceless_record, int_price_record]
   \<and> code_of priceless_record \<in> set (heap_of [(0, [''X'', ''Y''])] 0)
   \<and> dict_get priceless_record Tsena = PStr ''abc''
   \<and> price_conversion (PStr ''abc'') = Inr ''''
   \<and> seller_create_prices [priceless_record, int_price_record] 0 (heap_of [(0, [''X'', ''Y''])])
       = Inl AttributeError"
  by (simp add: seller_create_prices_def priceless_record_def int_price_record_def
        heap_of_def dict_get_def Kod_def Tsena_def Kolichestvo_def price_conversion_PStr
        is_digit_def del: price_conversion.simps(1))

text \<open>
  C10 (as amended). For every records list that contains a matched record whose price
  string has no digit before its first \<open>"."\<close>: the Yandex \<open>create_prices\<close> fails, with
  \<open>ValueError\<close> or \<open>AttributeError\<close>, and with the \<open>ValueError\<close> of \<open>int("")\<close> when every
  matched record's price cell is a string; the Ozon \<open>create_prices\<close> returns exactly when
  every matched record's price cell is a string, and whenever it returns, its price list
  holds the entry of that record with the empty string as its price.
\<close>

theorem empty_price_yandex_fails_ozon_emits:
  assumes "w \<in> set recs" and "code_of w \<in> set (h a)" and "dict_get w Tsena = PStr p"
    and "\<forall>c \<in> set (takeWhile (\<lambda>c. c \<noteq> CHR ''.'') p). \<not> is_digit c"
  shows "(\<exists>e. market_create_prices recs a h = Inl e \<and> (e = ValueError \<or> e = AttributeError))
    \<and> ((\<forall>v \<in> set recs. code_of v \<in> set (h a) \<longrightarrow> (\<exists>s. dict_get v Tsena = PStr s)) \<longrightarrow>
         market_create_prices recs a h = Inl ValueError)
    \<and> ((\<exists>prices. seller_create_prices recs a h = Inr prices)
         \<longleftrightarrow> (\<forall>v \<in> set recs. code_of v \<in> set (h a) \<longrightarrow> (\<exists>s. dict_get v Tsena = PStr s)))
    \<and> (\<forall>prices. seller_create_prices recs a h = Inr prices \<longrightarrow>
          \<lparr>auto_action_enabled = ''UNKNOWN'', currency_code = ''RUB'',
           price_offer_id = code_of w, old_price = ''0'', price = ''''\<rparr> \<in> set prices)"
proof -
  let ?typed = "\<forall>v \<in> set recs. code_of v \<in> set (h a) \<longrightarrow> (\<exists>s. dict_get v Tsena = PStr s)"
  let ?entry = "\<lparr>auto_action_enabled = ''UNKNOWN'', currency_code = ''RUB'',
           price_offer_id = code_of w, old_price = ''0'', price = ''''\<rparr>"
  obtain e where e: "market_create_prices recs a h = Inl e"
    using market_prices_loop_fails [OF assms] by (auto simp: market_create_prices_def)
  then have kind: "e = ValueError \<or> e = AttributeError"
    using market_prices_loop_error_kind by (simp add: market_create_prices_def)
  have val: "market_create_prices recs a h = Inl ValueError" if ?typed
    using market_prices_loop_error [OF that] e by (simp add: market_create_prices_def)
  have n: "normalizePrice_spec p = ''''"
    using assms(4) by (simp add: normalizePrice_spec_def filter_empty_conv)
  have ret: "\<exists>prices. seller_create_prices recs a h = Inr prices" if ?typed
    using seller_prices_loop_ok [OF that, of "[]"] by (auto simp: seller_create_prices_def)
  have typed: ?typed if "seller_create_prices recs a h = Inr prices" for prices
    using seller_prices_loop_typed [of recs "h a" "[]" prices] that
    by (auto simp: seller_create_prices_def)
  have ent: "?entry \<in> set prices" if r: "seller_create_prices recs a h = Inr prices" for prices
  proof -
    from seller_prices_loop_ok [OF typed [OF r], of "[]"] obtain ps' where
      "seller_prices_loop recs (h a) [] = Inr ps'"
      and "\<forall>v \<in> set recs. \<forall>s. code_of v \<in> set (h a) \<and> dict_get v Tsena = PStr s \<longrightarrow>
          \<lparr>auto_action_enabled = ''UNKNOWN'', currency_code = ''RUB'',
           price_offer_id = code_of v, old_price = ''0'',
           price = normalizePrice_spec s\<rparr> \<in> set ps'"
      by blast
    then show ?thesis
      using r assms(1,2,3) n by (auto simp: seller_create_prices_def)
  qed
  show ?thesis
    using e kind val ret typed ent by blast
qed

theorem empty_price_yandex_fails_ozon_emits_witness:
  "priceless_record \<in> set [scenario_record, priceless_record]
   \<and> code_of priceless_record \<in> set (scenario_heap 0)
   \<and> dict_get priceless_record Tsena = PStr ''abc''
   \<and> \<not> (\<exists>c \<in> set (takeWhile (\<lambda>c. c \<noteq> CHR ''.'') ''abc''). is_digit c)
   \<and> (\<exists>s. dict_get scenario_record Tsena = PStr s)
   \<and> market_create_prices [scenario_record, priceless_record] 0 scenario_heap = Inl ValueError
   \<and> (\<exists>prices. seller_create_prices [scenario_record, priceless_record] 0 scenario_heap
          = Inr prices
        \<and> \<lparr>auto_action_enabled = ''UNKNOWN'', currency_code = ''RUB'',
            price_offer_id = code_of priceless_record, old_price = ''0'', price = ''''\<rparr>
          \<in> set prices)"
proof -
  have 1: "priceless_record \<in> set [scenario_record, priceless_record]" by simp
  have 2: "code_of priceless_record \<in> set (scenario_heap 0)"
    by (simp add: priceless_record_def scenario_defs)
  have 3: "dict_get priceless_record Tsena = PStr ''abc''"
    by (simp add: priceless_record_def scenario_defs)
  have 4: "\<forall>c \<in> set (takeWhile (\<lambda>c. c \<noteq> CHR ''.'') ''abc''). \<not> is_digit c"
    by (simp add: is_digit_def)
  have 5: "\<exists>s. dict_get scenario_record Tsena = PStr s"
    by (simp add: scenario_defs)
  have 6: "\<forall>v \<in> set [scenario_record, priceless_record].
      code_of v \<in> set (scenario_heap 0) \<longrightarrow> (\<exists>s. dict_get v Tsena = PStr s)"
    using 3 5 by simp
  note t = empty_price_yandex_fails_ozon_emits
      [of priceless_record "[scenario_record, priceless_record]" scenario_heap 0 "''abc''",
       OF 1 2 3 4]
  have a: "market_create_prices [scenario_record, priceless_record] 0 scenario_heap
      = Inl ValueError"
    using t [THEN conjunct2, THEN conjunct1] 6 by blast
  have b: "\<exists>prices. seller_create_prices [scenario_record, priceless_record] 0 scenario_heap
          = Inr prices
        \<and> \<lparr>auto_action_enabled = ''UNKNOWN'', currency_code = ''RUB'',
            price_offer_id = code_of priceless_record, old_price = ''0'', price = ''''\<rparr>
          \<in> set prices"
    using t [THEN conjunct2, THEN conjunct2] 6 by blast
  have c: "\<not> (\<exists>c \<in> set (takeWhile (\<lambda>c. c \<noteq> CHR ''.'') ''abc''). is_digit c)"
    using 4 by blast
  show ?thesis
    by (intro conjI) (rule 1 2 3 c 5 a b)+
qed

subsection \<open>The quantity mapping\<close>

lemma seller_stocks_loop_append:
  "seller_stocks_loop (xs @ ys) a st h =
     (case seller_stocks_loop xs a st h of
        (Inl e, h') \<Rightarrow> (Inl e, h')
      | (Inr st', h') \<Rightarrow> seller_stocks_loop ys a st' h')"
proof (induction xs arbitrary: st h)
  case Nil
  then show ?case by simp
next
  case (Cons w ws)
  show ?case
  proof (cases "code_of w \<in> set (h a)")
    case True
    show ?thesis
    proof (cases "stock_count w")
      case (Inl e)
      with True show ?thesis by simp
    next
      case (Inr n)
      let ?h = "h(a := remove1 (code_of w) (h a))"
      let ?st = "st @ [\<lparr>offer_id = code_of w, stock = n\<rparr>]"
      from Cons.IH [of ?st ?h] True Inr show ?thesis by (simp add: fun_upd_def)
    qed
  next
    case False
    with Cons.IH [of st h] show ?thesis by simp
  qed
qed

lemma market_stocks_loop_append:
  "market_stocks_loop (xs @ ys) a wh d st h =
     (case market_stocks_loop xs a wh d st h of
        (Inl e, h') \<Rightarrow> (Inl e, h')
      | (Inr st', h') \<Rightarrow> market_stocks_loop ys a wh d st' h')"
proof (induction xs arbitrary: st h)
  case Nil
  then show ?case by simp
next
  case (Cons w ws)
  show ?case
  proof (cases "code_of w \<in> set (h a)")
    case True
    show ?thesis
    proof (cases "stock_count w")
      case (Inl e)
      with True show ?thesis by simp
    next
      case (Inr n)
      let ?h = "h(a := remove1 (code_of w) (h a))"
      let ?st = "st @ [market_entry wh d (code_of w) n]"
      from Cons.IH [of ?st ?h] True Inr show ?thesis by (simp add: fun_upd_def)
    qed
  next
    case False
    with Cons.IH [of st h] show ?thesis by simp
  qed
qed

lemma seller_loop_extends:
  "fst (seller_stocks_loop ws a st h) = Inr st' \<Longrightarrow> \<exists>ext. st' = st @ ext"
proof (induction ws arbitrary: st h)
  case Nil
  then show ?case by simp
next
  case (Cons w ws)
  show ?case
  proof (cases "code_of w \<in> set (h a)")
    case True
    with Cons.prems obtain n where n: "stock_count w = Inr n"
      by (auto split: sum.splits)
    let ?h = "h(a := remove1 (code_of w) (h a))"
    let ?st = "st @ [\<lparr>offer_id = code_of w, stock = n\<rparr>]"
    have "fst (seller_stocks_loop ws a ?st ?h) = Inr st'"
      using Cons.prems True n by simp
    with Cons.IH [of ?st ?h] show ?thesis by (auto simp: fun_upd_def)
  next
    case False
    then have "fst (seller_stocks_loop ws a st h) = Inr st'"
      using Cons.prems by simp
    from Cons.IH [OF this] show ?thesis .
  qed
qed

lemma seller_loop_at_record:
  assumes "seller_stocks_loop before a [] h = (Inr st, h')" and "code_of w \<in> set (h' a)"
  shows "seller_stocks_loop (before @ w # rest) a [] h =
           (case stock_count w of
              Inl e \<Rightarrow> (Inl e, h')
            | Inr n \<Rightarrow>
                seller_stocks_loop rest a (st @ [\<lparr>offer_id = code_of w, stock = n\<rparr>])
                  (h'(a := remove1 (code_of w) (h' a))))"
  using assms by (simp add: seller_stocks_loop_append)

lemma market_loop_at_record:
  assumes "seller_stocks_loop before a [] h = (Inr st, h')" and "code_of w \<in> set (h' a)"
  shows "market_stocks_loop (before @ w # rest) a wh d [] h =
           (case stock_count w of
              Inl e \<Rightarrow> (Inl e, h')
            | Inr n \<Rightarrow>
                market_stocks_loop rest a wh d
                  (map (to_market wh d) st @ [market_entry wh d (code_of w) n])
                  (h'(a := remove1 (code_of w) (h' a))))"
proof -
  have "market_stocks_loop before a wh d [] h = (Inr (map (to_market wh d) st), h')"
    using market_loop_sim [of before a wh d "[]" h] assms(1) by simp
  then show ?thesis
    using assms(2) by (simp add: market_stocks_loop_append)
qed

lemma seller_create_stocks_entry:
  assumes "seller_stocks_loop before a [] h = (Inr st, h')" and "code_of w \<in> set (h' a)"
    and "stock_count w = Inr n"
    and "fst (seller_create_stocks (before @ w # rest) a h) = Inr stocks"
  shows "length st < length stocks"
    and "stocks ! length st = \<lparr>offer_id = code_of w, stock = n\<rparr>"
proof -
  let ?e = "\<lparr>offer_id = code_of w, stock = n\<rparr>"
  let ?h = "h'(a := remove1 (code_of w) (h' a))"
  from seller_create_stocks_Inr [OF assms(4)] obtain st' tl where
    st': "fst (seller_stocks_loop (before @ w # rest) a [] h) = Inr st'"
    and s: "stocks = st' @ tl"
    by blast
  have "seller_stocks_loop (before @ w # rest) a [] h = seller_stocks_loop rest a (st @ [?e]) ?h"
    using seller_loop_at_record [OF assms(1,2), of rest] assms(3) by simp
  with st' have "fst (seller_stocks_loop rest a (st @ [?e]) ?h) = Inr st'" by simp
  from seller_loop_extends [OF this] obtain ext where "st' = (st @ [?e]) @ ext" ..
  with s have eq: "stocks = st @ ?e # (ext @ tl)" by simp
  show "length st < length stocks" by (simp add: eq)
  show "stocks ! length st = ?e" by (simp add: eq)
qed

lemma stock_count_PStr:
  assumes "dict_get w Kolichestvo = PStr q"
  shows "stock_count w =
           (if q = ''>10'' then Inr 100
            else if q = ''1'' then Inr 0
            else (case py_int_str q of None \<Rightarrow> Inl ValueError | Some i \<Rightarrow> Inr i))"
  by (simp add: stock_count_def assms)

lemma long_numeral_not_short:
  assumes "length q = 4301"
  shows "q \<noteq> ''>10''" and "q \<noteq> ''1''"
  using assms by auto

lemma stock_count_long_quantity:
  "stock_count long_quantity_record = Inl ValueError"
proof -
  let ?q = "replicate 4301 (CHR ''7'')"
  have q: "dict_get long_quantity_record Kolichestvo = PStr ?q"
    by (simp add: long_quantity_record_def dict_get_def Kod_def Kolichestvo_def)
  have "py_int_str ?q = None"
    by (rule py_int_str_too_long) (simp_all add: is_digit_def max_str_digits_def)
  moreover have "?q \<noteq> ''>10''" and "?q \<noteq> ''1''"
    by (rule long_numeral_not_short, simp)+
  ultimately show ?thesis
    by (simp only: stock_count_PStr [OF q] if_False option.case)
qed

text \<open>
  The claim C5 as stated fails for a numeric quantity string: a numeral of 4301
  digits does not map to its integer value, the conversion is refused with
  \<open>ValueError\<close> and both \<open>create_stocks\<close> variants fail on the matched record.
\<close>

theorem long_numeral_quantity_counterexample:
  "dict_get long_quantity_record Kolichestvo = PStr (replicate 4301 (CHR ''7''))
   \<and> filter is_digit (replicate 4301 (CHR ''7'')) = replicate 4301 (CHR ''7'')
   \<and> code_of long_quantity_record \<in> set (scenario_heap 0)
   \<and> fst (seller_create_stocks [long_quantity_record] 0 scenario_heap) = Inl ValueError
   \<and> fst (market_create_stocks [long_quantity_record] 0 ''wh'' ''2024'' scenario_heap)
       = Inl ValueError"
proof -
  have c: "code_of long_quantity_record \<in> set (scenario_heap 0)"
    by (simp add: long_quantity_record_def scenario_heap_def heap_of_def dict_get_def
          Kod_def Kolichestvo_def)
  have "dict_get long_quantity_record Kolichestvo = PStr (replicate 4301 (CHR ''7''))"
    by (simp add: long_quantity_record_def dict_get_def Kod_def Kolichestvo_def)
  moreover have "filter is_digit (replicate 4301 (CHR ''7'')) = replicate 4301 (CHR ''7'')"
    by (simp add: is_digit_def)
  moreover have "fst (seller_create_stocks [long_quantity_record] 0 scenario_heap)
      = Inl ValueError"
    using c by (simp add: seller_create_stocks_def stock_count_long_quantity)
  moreover have "fst (market_create_stocks [long_quantity_record] 0 ''wh'' ''2024'' scenario_heap)
      = Inl ValueError"
    using c by (simp add: market_create_stocks_def stock_count_long_quantity)
  ultimately show ?thesis
    using c by blast
qed

text \<open>
  C5 (as amended). Let the loop of \<open>create_stocks\<close> have passed the records before \<open>w\<close>
  without an error, and let \<open>w\<close> be matched: its code is in the list of offer ids when
  the loop reaches it. Then both \<open>create_stocks\<close> variants go on from \<open>w\<close> with the count
  that the quantity mapping gives; they fail with the mapping's error where it gives
  none, the list left as it was at that moment; and whenever they return, the entry of
  \<open>w\<close> in the result carries that count. For a quantity string \<open>q\<close> the mapping gives 100
  for \<open>">10"\<close>, 0 for \<open>"1"\<close>, 7 for \<open>"7"\<close>; for any other string it gives \<open>v\<close> exactly when
  \<open>q\<close> is an integer literal for \<open>v\<close> (blanks, an optional sign, at most 4300 decimal
  digits with single underscores allowed between digits, blanks; the blanks and the
  decimal digits are those of Unicode, not only of ASCII), and it is a \<open>ValueError\<close>
  exactly when \<open>q\<close> is no integer literal.
\<close>

theorem quantity_mapping:
  assumes "seller_stocks_loop before a [] h = (Inr st, h')"
    and "code_of w \<in> set (h' a)" and "dict_get w Kolichestvo = PStr q"
  shows "seller_stocks_loop (before @ w # rest) a [] h =
           (case stock_count w of
              Inl e \<Rightarrow> (Inl e, h')
            | Inr n \<Rightarrow>
                seller_stocks_loop rest a (st @ [\<lparr>offer_id = code_of w, stock = n\<rparr>])
                  (h'(a := remove1 (code_of w) (h' a))))
    \<and> market_stocks_loop (before @ w # rest) a wh d [] h =
           (case stock_count w of
              Inl e \<Rightarrow> (Inl e, h')
            | Inr n \<Rightarrow>
                market_stocks_loop rest a wh d
                  (map (to_market wh d) st @ [market_entry wh d (code_of w) n])
                  (h'(a := remove1 (code_of w) (h' a))))
    \<and> (\<forall>e. stock_count w = Inl e \<longrightarrow>
          seller_create_stocks (before @ w # rest) a h = (Inl e, h')
          \<and> market_create_stocks (before @ w # rest) a wh d h = (Inl e, h'))
    \<and> (\<forall>n. stock_count w = Inr n \<longrightarrow>
          (\<forall>stocks. fst (seller_create_stocks (before @ w # rest) a h) = Inr stocks \<longrightarrow>
             stocks ! length st = \<lparr>offer_id = code_of w, stock = n\<rparr>)
          \<and> (\<forall>stocks. fst (market_create_stocks (before @ w # rest) a wh d h) = Inr stocks \<longrightarrow>
             stocks ! length st = market_entry wh d (code_of w) n))
    \<and> (q = ''>10'' \<longrightarrow> stock_count w = Inr 100)
    \<and> (q = ''1'' \<longrightarrow> stock_count w = Inr 0)
    \<and> (q = ''7'' \<longrightarrow> stock_count w = Inr 7)
    \<and> (q \<noteq> ''>10'' \<and> q \<noteq> ''1'' \<longrightarrow>
         (\<forall>v. stock_count w = Inr v \<longleftrightarrow> int_literal q v)
         \<and> (stock_count w = Inl ValueError \<longleftrightarrow> \<not> (\<exists>v. int_literal q v)))"
proof -
  note sc = stock_count_PStr [OF assms(3)]
  note loop_s = seller_loop_at_record [OF assms(1,2), of rest]
  note loop_m = market_loop_at_record [OF assms(1,2), of rest wh d]
  have fail: "seller_create_stocks (before @ w # rest) a h = (Inl e, h')
          \<and> market_create_stocks (before @ w # rest) a wh d h = (Inl e, h')"
    if "stock_count w = Inl e" for e
    using loop_s loop_m that by (simp add: seller_create_stocks_def market_create_stocks_def)
  have ent_s: "stocks ! length st = \<lparr>offer_id = code_of w, stock = n\<rparr>"
    if "stock_count w = Inr n"
      and "fst (seller_create_stocks (before @ w # rest) a h) = Inr stocks" for n stocks
    using seller_create_stocks_entry(2) [OF assms(1,2) that] .
  have ent_m: "stocks ! length st = market_entry wh d (code_of w) n"
    if n: "stock_count w = Inr n"
      and m: "fst (market_create_stocks (before @ w # rest) a wh d h) = Inr stocks" for n stocks
  proof -
    from m obtain ss where ss: "fst (seller_create_stocks (before @ w # rest) a h) = Inr ss"
      and eq: "stocks = map (to_market wh d) ss"
      by (cases "fst (seller_create_stocks (before @ w # rest) a h)")
         (auto simp: market_create_stocks_sim)
    from seller_create_stocks_entry [OF assms(1,2) n ss]
    show ?thesis by (simp add: eq to_market_def)
  qed
  have big: "q = ''>10'' \<longrightarrow> stock_count w = Inr 100"
    by (simp add: sc)
  have one: "q = ''1'' \<longrightarrow> stock_count w = Inr 0"
    by (simp add: sc)
  have seven: "q = ''7'' \<longrightarrow> stock_count w = Inr 7"
    by (simp add: sc py_int_str_ascii ascii_int_defs)
  have other: "(\<forall>v. stock_count w = Inr v \<longleftrightarrow> int_literal q v)
         \<and> (stock_count w = Inl ValueError \<longleftrightarrow> \<not> (\<exists>v. int_literal q v))"
    if "q \<noteq> ''>10'' \<and> q \<noteq> ''1''"
  proof (cases "py_int_str q")
    case None
    then have "stock_count w = Inl ValueError" using that by (simp add: sc)
    moreover have "\<not> int_literal q v" for v
      using None py_int_str_literal [of q v] by simp
    ultimately show ?thesis by simp
  next
    case (Some i)
    then have "stock_count w = Inr i" using that by (simp add: sc)
    moreover have "int_literal q v \<longleftrightarrow> v = i" for v
      using Some py_int_str_literal [of q v] by auto
    ultimately show ?thesis by auto
  qed
  have failing: "\<forall>e. stock_count w = Inl e \<longrightarrow>
          seller_create_stocks (before @ w # rest) a h = (Inl e, h')
          \<and> market_create_stocks (before @ w # rest) a wh d h = (Inl e, h')"
    using fail by blast
  have entry: "\<forall>n. stock_count w = Inr n \<longrightarrow>
          (\<forall>stocks. fst (seller_create_stocks (before @ w # rest) a h) = Inr stocks \<longrightarrow>
             stocks ! length st = \<lparr>offer_id = code_of w, stock = n\<rparr>)
          \<and> (\<forall>stocks. fst (market_create_stocks (before @ w # rest) a wh d h) = Inr stocks \<longrightarrow>
             stocks ! length st = market_entry wh d (code_of w) n)"
    using ent_s ent_m by blast
  have literal: "q \<noteq> ''>10'' \<and> q \<noteq> ''1'' \<longrightarrow>
         (\<forall>v. stock_count w = Inr v \<longleftrightarrow> int_literal q v)
         \<and> (stock_count w = Inl ValueError \<longleftrightarrow> \<not> (\<exists>v. int_literal q v))"
    using other by blast
  show ?thesis
    by (intro conjI) (rule loop_s loop_m failing entry big one seven literal)+
qed

lemmas to_ascii_defs =
  py_int_str_def to_ascii_str_def utf8_extra_def utf8_lead_bits_def to_ascii_char_def
  unicode_space_def unicode_decimal_def decimal_zeros_def digit_char_def char_of_eq_iff

lemma stock_count_examples:
  "stock_count nbsp_quantity_record = Inr 7"
  "stock_count fullwidth_quantity_record = Inr 12"
  "stock_count signed_quantity_record = Inr (- 12)"
  "stock_count malformed_quantity_record = Inl ValueError"
  "stock_count int_price_record = Inr 5"
  by (simp_all add: stock_count_def dict_get_def Kod_def Kolichestvo_def
        nbsp_quantity_record_def fullwidth_quantity_record_def signed_quantity_record_def
        malformed_quantity_record_def int_price_record_def to_ascii_defs ascii_int_defs)

lemma example_cells:
  "code_of scenario_record = ''X''" "dict_get scenario_record Kolichestvo = PStr ''>10''"
  "code_of int_price_record = ''Y''" "dict_get int_price_record Kolichestvo = PStr ''5''"
  "code_of priceless_record = ''X''"
  "code_of malformed_quantity_record = ''X''"
  "dict_get malformed_quantity_record Kolichestvo = PStr ''1__0''"
  "code_of nbsp_quantity_record = ''X''"
  "dict_get nbsp_quantity_record Kolichestvo = PStr [CHR 0xC2, CHR 0xA0, CHR ''7'']"
  "code_of fullwidth_quantity_record = ''X''"
  "dict_get fullwidth_quantity_record Kolichestvo
     = PStr [CHR 0xEF, CHR 0xBC, CHR 0x91, CHR 0xEF, CHR 0xBC, CHR 0x92]"
  "code_of signed_quantity_record = ''X''"
  "dict_get signed_quantity_record Kolichestvo = PStr '' -1_2 ''"
  "scenario_heap 0 = [''X'', ''Y'']"
  by (simp_all add: scenario_record_def int_price_record_def priceless_record_def
        malformed_quantity_record_def nbsp_quantity_record_def fullwidth_quantity_record_def
        signed_quantity_record_def scenario_heap_def heap_of_def dict_get_def
        Kod_def Kolichestvo_def Tsena_def)

theorem quantity_mapping_witness:
  "seller_stocks_loop [scenario_record] 0 [] scenario_heap
       = (Inr [\<lparr>offer_id = ''X'', stock = 100\<rparr>], scenario_heap(0 := [''Y'']))
   \<and> code_of int_price_record \<in> set ((scenario_heap(0 := [''Y''])) 0)
   \<and> dict_get int_price_record Kolichestvo = PStr ''5''
   \<and> stock_count int_price_record = Inr 5
   \<and> int_literal ''5'' 5
   \<and> (\<exists>stocks. fst (seller_create_stocks [scenario_record, int_price_record, priceless_record]
                        0 scenario_heap) = Inr stocks
         \<and> stocks ! 1 = \<lparr>offer_id = ''Y'', stock = 5\<rparr>)
   \<and> (\<exists>stocks. fst (market_create_stocks [scenario_record, int_price_record, priceless_record]
                        0 ''wh'' ''2024'' scenario_heap) = Inr stocks
         \<and> stocks ! 1 = market_entry ''wh'' ''2024'' ''Y'' 5)
   \<and> seller_stocks_loop [int_price_record] 0 [] scenario_heap
       = (Inr [\<lparr>offer_id = ''Y'', stock = 5\<rparr>], scenario_heap(0 := [''X'']))
   \<and> code_of malformed_quantity_record \<in> set ((scenario_heap(0 := [''X''])) 0)
   \<and> dict_get malformed_quantity_record Kolichestvo = PStr ''1__0''
   \<and> stock_count malformed_quantity_record = Inl ValueError
   \<and> \<not> (\<exists>v. int_literal ''1__0'' v)
   \<and> seller_create_stocks [int_price_record, malformed_quantity_record, scenario_record]
         0 scenario_heap = (Inl ValueError, scenario_heap(0 := [''X'']))
   \<and> market_create_stocks [int_price_record, malformed_quantity_record, scenario_record]
         0 ''wh'' ''2024'' scenario_heap = (Inl ValueError, scenario_heap(0 := [''X'']))
   \<and> stock_count scenario_record = Inr 100
   \<and> stock_count nbsp_quantity_record = Inr 7
   \<and> int_literal [CHR 0xC2, CHR 0xA0, CHR ''7''] 7
   \<and> stock_count fullwidth_quantity_record = Inr 12
   \<and> int_literal [CHR 0xEF, CHR 0xBC, CHR 0x91, CHR 0xEF, CHR 0xBC, CHR 0x92] 12
   \<and> stock_count signed_quantity_record = Inr (- 12)
   \<and> int_literal '' -1_2 '' (- 12)"
proof -
  note c = example_cells
  note ex = stock_count_examples
  have e0: "seller_stocks_loop [] 0 [] scenario_heap = (Inr [], scenario_heap)"
    by simp
  have x: "''X'' \<in> set (scenario_heap 0)"
    by (simp add: c)
  have x1: "code_of scenario_record \<in> set (scenario_heap 0)"
    by (simp add: c)
  note q = quantity_mapping [of "[]" 0 scenario_heap "[]" scenario_heap scenario_record
      "''>10''" "[]" "''wh''" "''2024''", OF e0 x1 c(2)]
  have big: "stock_count scenario_record = Inr 100"
    using q [THEN conjunct2, THEN conjunct2, THEN conjunct2, THEN conjunct2, THEN conjunct1]
    by simp
  have l1: "seller_stocks_loop [scenario_record] 0 [] scenario_heap
       = (Inr [\<lparr>offer_id = ''X'', stock = 100\<rparr>], scenario_heap(0 := [''Y'']))"
    using q [THEN conjunct1] by (simp add: c big)
  have y2: "code_of int_price_record \<in> set ((scenario_heap(0 := [''Y''])) 0)"
    by (simp add: c)
  note r = quantity_mapping [of "[scenario_record]" 0 scenario_heap
      "[\<lparr>offer_id = ''X'', stock = 100\<rparr>]" "scenario_heap(0 := [''Y''])" int_price_record
      "''5''" "[priceless_record]" "''wh''" "''2024''", OF l1 y2 c(4)]
  have five: "int_literal ''5'' 5"
    using r [THEN conjunct2, THEN conjunct2, THEN conjunct2, THEN conjunct2, THEN conjunct2,
        THEN conjunct2, THEN conjunct2] ex(5)
    by auto
  note ent = r [THEN conjunct2, THEN conjunct2, THEN conjunct2, THEN conjunct1, rule_format,
      OF ex(5)]
  have s2: "fst (seller_create_stocks [scenario_record, int_price_record, priceless_record]
                        0 scenario_heap)
      = Inr [\<lparr>offer_id = ''X'', stock = 100\<rparr>, \<lparr>offer_id = ''Y'', stock = 5\<rparr>]"
    by (simp add: seller_create_stocks_def c big ex(5))
  have m2: "fst (market_create_stocks [scenario_record, int_price_record, priceless_record]
                        0 ''wh'' ''2024'' scenario_heap)
      = Inr [market_entry ''wh'' ''2024'' ''X'' 100, market_entry ''wh'' ''2024'' ''Y'' 5]"
    by (simp add: market_create_stocks_def c big ex(5))
  have es: "\<exists>stocks. fst (seller_create_stocks [scenario_record, int_price_record, priceless_record]
                        0 scenario_heap) = Inr stocks
         \<and> stocks ! 1 = \<lparr>offer_id = ''Y'', stock = 5\<rparr>"
    using ent [THEN conjunct1, rule_format, of
        "[\<lparr>offer_id = ''X'', stock = 100\<rparr>, \<lparr>offer_id = ''Y'', stock = 5\<rparr>]"] s2
    by (simp add: c)
  have em: "\<exists>stocks. fst (market_create_stocks [scenario_record, int_price_record, priceless_record]
                        0 ''wh'' ''2024'' scenario_heap) = Inr stocks
         \<and> stocks ! 1 = market_entry ''wh'' ''2024'' ''Y'' 5"
    using ent [THEN conjunct2, rule_format, of
        "[market_entry ''wh'' ''2024'' ''X'' 100, market_entry ''wh'' ''2024'' ''Y'' 5]"] m2
    by (simp add: c)
  have l3: "seller_stocks_loop [int_price_record] 0 [] scenario_heap
       = (Inr [\<lparr>offer_id = ''Y'', stock = 5\<rparr>], scenario_heap(0 := [''X'']))"
    by (simp add: c ex(5))
  have x3: "code_of malformed_quantity_record \<in> set ((scenario_heap(0 := [''X''])) 0)"
    by (simp add: c)
  note f = quantity_mapping [of "[int_price_record]" 0 scenario_heap
      "[\<lparr>offer_id = ''Y'', stock = 5\<rparr>]" "scenario_heap(0 := [''X''])"
      malformed_quantity_record "''1__0''" "[scenario_record]" "''wh''" "''2024''",
      OF l3 x3 c(7)]
  note fl = f [THEN conjunct2, THEN conjunct2, THEN conjunct1, rule_format, OF ex(4)]
  have fs: "seller_create_stocks [int_price_record, malformed_quantity_record, scenario_record]
         0 scenario_heap = (Inl ValueError, scenario_heap(0 := [''X'']))"
    using fl [THEN conjunct1] by simp
  have fm: "market_create_stocks [int_price_record, malformed_quantity_record, scenario_record]
         0 ''wh'' ''2024'' scenario_heap = (Inl ValueError, scenario_heap(0 := [''X'']))"
    using fl [THEN conjunct2] by simp
  have bad: "\<not> (\<exists>v. int_literal ''1__0'' v)"
    using f [THEN conjunct2, THEN conjunct2, THEN conjunct2, THEN conjunct2, THEN conjunct2,
        THEN conjunct2, THEN conjunct2] ex(4)
    by simp
  have other: "(\<forall>v. stock_count r = Inr v \<longleftrightarrow> int_literal s v)
         \<and> (stock_count r = Inl ValueError \<longleftrightarrow> \<not> (\<exists>v. int_literal s v))"
    if "code_of r \<in> set (scenario_heap 0)" and "dict_get r Kolichestvo = PStr s"
      and "s \<noteq> ''>10''" and "s \<noteq> ''1''" for r s
    using quantity_mapping [of "[]" 0 scenario_heap "[]" scenario_heap r s "[]" "''wh''"
        "''2024''", OF e0 that(1,2)] that(3,4)
    by blast
  have n: "int_literal [CHR 0xC2, CHR 0xA0, CHR ''7''] 7"
    using other [OF _ c(9)] x ex(1) by (auto simp: c)
  have fw: "int_literal [CHR 0xEF, CHR 0xBC, CHR 0x91, CHR 0xEF, CHR 0xBC, CHR 0x92] 12"
    using other [OF _ c(11)] x ex(2) by (auto simp: c)
  have sg: "int_literal '' -1_2 '' (- 12)"
    using other [OF _ c(13)] x ex(3) by (auto simp: c)
  show ?thesis
    by (intro conjI) (rule l1 y2 c(4) ex five es em l3 x3 c(7) bad fs fm big n fw sg)+
qed

subsection \<open>Listing the catalog\<close>

lemma seller_collected_Suc:
  "seller_collected pages (Suc k) = seller_collected pages k @ page_items (pages k)"
  by (simp add: seller_collected_def)

lemma market_collected_Suc:
  "market_collected pages (Suc k) = market_collected pages k @ offerMappingEntries (pages k)"
  by (simp add: market_collected_def)

lemma seller_loop_stops:
  assumes "\<forall>j \<le> n. get_product_list j (seller_cursor pages j) = Inr (pages j)"
    and "\<forall>j < n. \<not> seller_signal pages j" and "seller_signal pages n" and "k \<le> n"
  shows "seller_product_loop get_product_list k (seller_cursor pages k) (seller_collected pages k)
           = Some (Inr (seller_collected pages (Suc n)))"
  using assms(4)
proof (induction "n - k" arbitrary: k)
  case 0
  then have k: "k = n" by simp
  have "get_product_list n (seller_cursor pages n) = Inr (pages n)" using assms(1) by simp
  then show ?case
    using assms(3) unfolding k
    by (subst seller_product_loop.simps) (simp add: seller_signal_def seller_collected_Suc)
next
  case (Suc d)
  then have k: "k < n" by simp
  then have r: "get_product_list k (seller_cursor pages k) = Inr (pages k)"
    using assms(1) by simp
  have ns: "\<not> seller_signal pages k" using assms(2) k by simp
  have "seller_product_loop get_product_list (Suc k) (seller_cursor pages (Suc k))
          (seller_collected pages (Suc k)) = Some (Inr (seller_collected pages (Suc n)))"
    using Suc.hyps(1) [of "Suc k"] Suc.hyps(2) k by simp
  then show ?case
    using r ns
    by (subst seller_product_loop.simps) (simp add: seller_signal_def seller_collected_Suc)
qed

lemma seller_loop_runs_on:
  assumes "\<forall>j. get_product_list j (seller_cursor pages j) = Inr (pages j)"
    and "\<forall>j. \<not> seller_signal pages j"
  shows "seller_product_loop get_product_list k (seller_cursor pages k) (seller_collected pages k)
           = None"
proof -
  let ?P = "\<lambda>g k c acc (y :: py_error + ozon_product list).
      g = get_product_list \<longrightarrow> c = seller_cursor pages k \<longrightarrow> acc = seller_collected pages k \<longrightarrow> False"
  have never: "?P g k c acc y" if run: "seller_product_loop g k c acc = Some y" for g k c acc y
  proof (rule seller_product_loop.raw_induct [where P = ?P, OF _ run])
    fix loop g k c acc and y :: "py_error + ozon_product list"
    assume ih: "\<And>g k c acc y. loop g k c acc = Some y \<Longrightarrow> ?P g k c acc y"
      and body: "(case g k c of
          Inl e \<Rightarrow> Some (Inl e)
        | Inr some_prod \<Rightarrow>
            if page_total some_prod = int (length (acc @ page_items some_prod))
            then Some (Inr (acc @ page_items some_prod))
            else loop g (k + 1) (page_last_id some_prod) (acc @ page_items some_prod)) = Some y"
    show "?P g k c acc y"
    proof (intro impI)
      assume g: "g = get_product_list" and c: "c = seller_cursor pages k"
        and acc: "acc = seller_collected pages k"
      have r: "g k c = Inr (pages k)" using assms(1) g c by simp
      have ns: "page_total (pages k) \<noteq> int (length (acc @ page_items (pages k)))"
        using assms(2) acc by (simp add: seller_signal_def seller_collected_Suc)
      from body r ns
      have "loop g (k + 1) (page_last_id (pages k)) (acc @ page_items (pages k)) = Some y"
        by simp
      from ih [OF this] show False
        using g acc by (simp add: seller_collected_Suc)
    qed
  qed
  show ?thesis
  proof (cases "seller_product_loop get_product_list k (seller_cursor pages k) (seller_collected pages k)")
    case None
    then show ?thesis .
  next
    case (Some y)
    from never [OF Some] show ?thesis by simp
  qed
qed

lemma market_loop_stops:
  assumes "\<forall>j \<le> n. get_product_list j (market_cursor pages j) = Inr (pages j)"
    and "\<forall>j < n. \<not> market_signal pages j" and "market_signal pages n" and "k \<le> n"
  shows "market_product_loop get_product_list k (market_cursor pages k) (market_collected pages k)
           = Some (Inr (market_collected pages (Suc n)))"
  using assms(4)
proof (induction "n - k" arbitrary: k)
  case 0
  then have k: "k = n" by simp
  have "get_product_list n (market_cursor pages n) = Inr (pages n)" using assms(1) by simp
  then show ?case
    using assms(3) unfolding k
    by (subst market_product_loop.simps)
       (auto simp: market_signal_def market_collected_Suc split: option.splits)
next
  case (Suc d)
  then have k: "k < n" by simp
  then have r: "get_product_list k (market_cursor pages k) = Inr (pages k)"
    using assms(1) by simp
  have "\<not> market_signal pages k" using assms(2) k by simp
  then obtain token where t: "nextPageToken (pages k) = Some token" "token \<noteq> ''''"
    by (cases "nextPageToken (pages k)") (auto simp: market_signal_def)
  have "market_product_loop get_product_list (Suc k) (market_cursor pages (Suc k))
          (market_collected pages (Suc k)) = Some (Inr (market_collected pages (Suc n)))"
    using Suc.hyps(1) [of "Suc k"] Suc.hyps(2) k by simp
  then show ?case
    using r t
    by (subst market_product_loop.simps) (simp add: market_collected_Suc)
qed

lemma market_loop_runs_on:
  assumes "\<forall>j. get_product_list j (market_cursor pages j) = Inr (pages j)"
    and "\<forall>j. \<not> market_signal pages j"
  shows "market_product_loop get_product_list k (market_cursor pages k) (market_collected pages k)
           = None"
proof -
  let ?P = "\<lambda>g k c acc (y :: py_error + offer_mapping_entry list).
      g = get_product_list \<longrightarrow> c = market_cursor pages k \<longrightarrow> acc = market_collected pages k \<longrightarrow> False"
  have never: "?P g k c acc y" if run: "market_product_loop g k c acc = Some y" for g k c acc y
  proof (rule market_product_loop.raw_induct [where P = ?P, OF _ run])
    fix loop g k c acc and y :: "py_error + offer_mapping_entry list"
    assume ih: "\<And>g k c acc y. loop g k c acc = Some y \<Longrightarrow> ?P g k c acc y"
      and body: "(case g k c of
          Inl e \<Rightarrow> Some (Inl e)
        | Inr some_prod \<Rightarrow>
            (case nextPageToken some_prod of
               None \<Rightarrow> Some (Inr (acc @ offerMappingEntries some_prod))
             | Some token \<Rightarrow>
                 if token = '''' then Some (Inr (acc @ offerMappingEntries some_prod))
                 else loop g (k + 1) token (acc @ offerMappingEntries some_prod))) = Some y"
    show "?P g k c acc y"
    proof (intro impI)
      assume g: "g = get_product_list" and c: "c = market_cursor pages k"
        and acc: "acc = market_collected pages k"
      have r: "g k c = Inr (pages k)" using assms(1) g c by simp
      have "\<not> market_signal pages k" using assms(2) by simp
      then obtain token where t: "nextPageToken (pages k) = Some token" "token \<noteq> ''''"
        by (cases "nextPageToken (pages k)") (auto simp: market_signal_def)
      from body r t
      have "loop g (k + 1) token (acc @ offerMappingEntries (pages k)) = Some y"
        by simp
      from ih [OF this] show False
        using g acc t by (simp add: market_collected_Suc)
    qed
  qed
  show ?thesis
  proof (cases "market_product_loop get_product_list k (market_cursor pages k) (market_collected pages k)")
    case None
    then show ?thesis .
  next
    case (Some y)
    from never [OF Some] show ?thesis by simp
  qed
qed

text \<open>
  C8. For every sequence of pages that the requests of a run are answered with, each
  \<open>get_offer_ids\<close> accumulates the items of the pages and stops exactly at the first page
  where its marketplace's signal occurs (Yandex: no next-page token; Ozon: the number of
  accumulated items equals the reported total); it then returns the offer ids of all
  accumulated items, in order. Where the signal never occurs it does not return.
\<close>

theorem get_offer_ids_stops_at_signal:
  "((\<forall>j \<le> n. oz j (seller_cursor ozp j) = Inr (ozp j))
      \<and> (\<forall>j < n. \<not> seller_signal ozp j) \<and> seller_signal ozp n
     \<longrightarrow> seller_get_offer_ids oz
           = Some (Inr (map product_offer_id (seller_collected ozp (Suc n)))))
   \<and> ((\<forall>j. oz j (seller_cursor ozp j) = Inr (ozp j)) \<and> (\<forall>j. \<not> seller_signal ozp j)
     \<longrightarrow> seller_get_offer_ids oz = None)
   \<and> ((\<forall>j \<le> m. ya j (market_cursor yap j) = Inr (yap j))
      \<and> (\<forall>j < m. \<not> market_signal yap j) \<and> market_signal yap m
     \<longrightarrow> market_get_offer_ids ya
           = Some (Inr (map (\<lambda>product. shopSku (offer product)) (market_collected yap (Suc m)))))
   \<and> ((\<forall>j. ya j (market_cursor yap j) = Inr (yap j)) \<and> (\<forall>j. \<not> market_signal yap j)
     \<longrightarrow> market_get_offer_ids ya = None)"
proof (intro conjI impI)
  assume "(\<forall>j \<le> n. oz j (seller_cursor ozp j) = Inr (ozp j))
      \<and> (\<forall>j < n. \<not> seller_signal ozp j) \<and> seller_signal ozp n"
  then have "seller_product_loop oz 0 (seller_cursor ozp 0) (seller_collected ozp 0)
      = Some (Inr (seller_collected ozp (Suc n)))"
    by (intro seller_loop_stops) simp_all
  then show "seller_get_offer_ids oz
      = Some (Inr (map product_offer_id (seller_collected ozp (Suc n))))"
    by (simp add: seller_get_offer_ids_def seller_collected_def)
next
  assume "(\<forall>j. oz j (seller_cursor ozp j) = Inr (ozp j)) \<and> (\<forall>j. \<not> seller_signal ozp j)"
  then have "seller_product_loop oz 0 (seller_cursor ozp 0) (seller_collected ozp 0) = None"
    by (intro seller_loop_runs_on) simp_all
  then show "seller_get_offer_ids oz = None"
    by (simp add: seller_get_offer_ids_def seller_collected_def)
next
  assume "(\<forall>j \<le> m. ya j (market_cursor yap j) = Inr (yap j))
      \<and> (\<forall>j < m. \<not> market_signal yap j) \<and> market_signal yap m"
  then have "market_product_loop ya 0 (market_cursor yap 0) (market_collected yap 0)
      = Some (Inr (market_collected yap (Suc m)))"
    by (intro market_loop_stops) simp_all
  then show "market_get_offer_ids ya
      = Some (Inr (map (\<lambda>product. shopSku (offer product)) (market_collected yap (Suc m))))"
    by (simp add: market_get_offer_ids_def market_collected_def)
next
  assume "(\<forall>j. ya j (market_cursor yap j) = Inr (yap j)) \<and> (\<forall>j. \<not> market_signal yap j)"
  then have "market_product_loop ya 0 (market_cursor yap 0) (market_collected yap 0) = None"
    by (intro market_loop_runs_on) simp_all
  then show "market_get_offer_ids ya = None"
    by (simp add: market_get_offer_ids_def market_collected_def)
qed

lemma le_one_cases: "j \<le> Suc 0 \<longleftrightarrow> j = 0 \<or> j = Suc 0"
  by auto

theorem get_offer_ids_stops_at_signal_witness:
  "ozon_two_pages_client 0 (seller_cursor ozon_two_pages 0) = Inr (ozon_two_pages 0)
   \<and> ozon_two_pages_client (Suc 0) (seller_cursor ozon_two_pages (Suc 0)) = Inr (ozon_two_pages (Suc 0))
   \<and> \<not> seller_signal ozon_two_pages 0 \<and> seller_signal ozon_two_pages (Suc 0)
   \<and> seller_get_offer_ids ozon_two_pages_client = Some (Inr [''A'', ''B'', ''C''])
   \<and> (\<forall>j. ozon_stuck_client j (seller_cursor ozon_stuck_pages j) = Inr (ozon_stuck_pages j))
   \<and> (\<forall>j. \<not> seller_signal ozon_stuck_pages j)
   \<and> seller_get_offer_ids ozon_stuck_client = None
   \<and> market_two_pages_client 0 (market_cursor market_two_pages 0) = Inr (market_two_pages 0)
   \<and> market_two_pages_client (Suc 0) (market_cursor market_two_pages (Suc 0)) = Inr (market_two_pages (Suc 0))
   \<and> \<not> market_signal market_two_pages 0 \<and> market_signal market_two_pages (Suc 0)
   \<and> market_get_offer_ids market_two_pages_client = Some (Inr [''A'', ''B''])
   \<and> (\<forall>j. market_stuck_client j (market_cursor market_stuck_pages j) = Inr (market_stuck_pages j))
   \<and> (\<forall>j. \<not> market_signal market_stuck_pages j)
   \<and> market_get_offer_ids market_stuck_client = None"
proof -
  have o1: "\<forall>j \<le> Suc 0. ozon_two_pages_client j (seller_cursor ozon_two_pages j) = Inr (ozon_two_pages j)"
    by (simp add: le_one_cases ozon_two_pages_client_def ozon_two_pages_def)
  have o2: "\<forall>j < Suc 0. \<not> seller_signal ozon_two_pages j"
    by (simp add: seller_signal_def seller_collected_def ozon_two_pages_def)
  have o3: "seller_signal ozon_two_pages (Suc 0)"
    by (simp add: seller_signal_def seller_collected_def ozon_two_pages_def)
  have o4: "\<forall>j. ozon_stuck_client j (seller_cursor ozon_stuck_pages j) = Inr (ozon_stuck_pages j)"
    by (simp add: ozon_stuck_client_def)
  have e: "seller_collected ozon_stuck_pages k = []" for k
    by (induction k) (simp_all add: seller_collected_def ozon_stuck_pages_def)
  have o5: "\<forall>j. \<not> seller_signal ozon_stuck_pages j"
    by (simp add: seller_signal_def e) (simp add: ozon_stuck_pages_def)
  have y1: "\<forall>j \<le> Suc 0. market_two_pages_client j (market_cursor market_two_pages j) = Inr (market_two_pages j)"
    by (simp add: le_one_cases market_two_pages_client_def market_two_pages_def)
  have y2: "\<forall>j < Suc 0. \<not> market_signal market_two_pages j"
    by (simp add: market_signal_def market_two_pages_def)
  have y3: "market_signal market_two_pages (Suc 0)"
    by (simp add: market_signal_def market_two_pages_def)
  have y4: "\<forall>j. market_stuck_client j (market_cursor market_stuck_pages j) = Inr (market_stuck_pages j)"
    by (simp add: market_stuck_client_def)
  have y5: "\<forall>j. \<not> market_signal market_stuck_pages j"
    by (simp add: market_signal_def market_stuck_pages_def)
  note stop = get_offer_ids_stops_at_signal
      [of "Suc 0" ozon_two_pages_client ozon_two_pages "Suc 0" market_two_pages_client market_two_pages]
  note stuck = get_offer_ids_stops_at_signal
      [of 0 ozon_stuck_client ozon_stuck_pages 0 market_stuck_client market_stuck_pages]
  have a: "seller_get_offer_ids ozon_two_pages_client = Some (Inr [''A'', ''B'', ''C''])"
    using stop [THEN conjunct1] o1 o2 o3
    by (simp add: seller_collected_def ozon_two_pages_def)
  have b: "seller_get_offer_ids ozon_stuck_client = None"
    using stuck [THEN conjunct2, THEN conjunct1] o4 o5 by blast
  have c: "market_get_offer_ids market_two_pages_client = Some (Inr [''A'', ''B''])"
    using stop [THEN conjunct2, THEN conjunct2, THEN conjunct1] y1 y2 y3
    by (simp add: market_collected_def market_two_pages_def)
  have d: "market_get_offer_ids market_stuck_client = None"
    using stuck [THEN conjunct2, THEN conjunct2, THEN conjunct2] y4 y5 by blast
  have o1a: "ozon_two_pages_client 0 (seller_cursor ozon_two_pages 0) = Inr (ozon_two_pages 0)"
    and o1b: "ozon_two_pages_client (Suc 0) (seller_cursor ozon_two_pages (Suc 0)) = Inr (ozon_two_pages (Suc 0))"
    by (simp_all add: ozon_two_pages_client_def ozon_two_pages_def)
  have o2a: "\<not> seller_signal ozon_two_pages 0" using o2 by simp
  have y1a: "market_two_pages_client 0 (market_cursor market_two_pages 0) = Inr (market_two_pages 0)"
    and y1b: "market_two_pages_client (Suc 0) (market_cursor market_two_pages (Suc 0)) = Inr (market_two_pages (Suc 0))"
    by (simp_all add: market_two_pages_client_def market_two_pages_def)
  have y2a: "\<not> market_signal market_two_pages 0" using y2 by simp
  show ?thesis
    by (intro conjI) (rule o1a o1b o2a o3 o4 o5 y1a y1b y2a y3 y4 y5 a b c d)+
qed

subsection \<open>The end-to-end scenario\<close>

lemma scenario_offer_ids: "seller_get_offer_ids scenario_catalog = Some (Inr [''X'', ''Y''])"
  by (simp add: seller_get_offer_ids_def seller_product_loop.simps scenario_catalog_def)

lemma divide_one_chunk:
  "lst \<noteq> [] \<Longrightarrow> int (length lst) \<le> n \<Longrightarrow> divide_lst lst n = Inr [lst]"
proof -
  assume ne: "lst \<noteq> []" and le: "int (length lst) \<le> n"
  then have n: "0 < n" by (cases lst) auto
  have "divide_loop 0 lst (nat n) = take (nat n) (drop 0 lst) # divide_loop (0 + nat n) lst (nat n)"
    using ne n by (subst divide_loop.simps) simp
  moreover have "length lst \<le> nat n" using le by linarith
  then have "divide_loop (0 + nat n) lst (nat n) = []"
    by (subst divide_loop.simps) simp
  ultimately show ?thesis
    using n le by (simp add: divide_lst_def)
qed

lemma divide_empty: "0 < n \<Longrightarrow> divide_lst [] n = Inr []"
  by (simp add: divide_lst_def) (subst divide_loop.simps, simp)

text \<open>
  C2 does not hold of the code. In the end-to-end scenario \<open>seller.main\<close> uploads the
  stock batch the claim states and no price batch at all: \<open>create_stocks\<close> has removed
  \<open>"X"\<close> from the list that \<open>create_prices\<close> is then given, so the price list is empty.
  On the catalog as fetched, \<open>create_prices\<close> gives the entry for \<open>"X"\<close> with price
  \<open>"1000"\<close>.
\<close>

theorem seller_main_scenario_prices:
  "seller_main scenario_world =
     Some \<lparr>stocks_sent = [[\<lparr>offer_id = ''X'', stock = 100\<rparr>, \<lparr>offer_id = ''Y'', stock = 0\<rparr>]],
           prices_sent = [], printed = [], uncaught = None\<rparr>
   \<and> seller_create_prices [scenario_record] 0 scenario_heap
       = Inr [\<lparr>auto_action_enabled = ''UNKNOWN'', currency_code = ''RUB'',
               price_offer_id = ''X'', old_price = ''0'', price = ''1000''\<rparr>]
   \<and> seller_create_prices [scenario_record] 0
         (snd (seller_create_stocks [scenario_record] 0 scenario_heap)) = Inr []"
proof -
  have s: "seller_create_stocks [scenario_record] 0 (heap_of [(0, [''X'', ''Y''])])
      = (Inr [\<lparr>offer_id = ''X'', stock = 100\<rparr>, \<lparr>offer_id = ''Y'', stock = 0\<rparr>],
         (heap_of [(0, [''X'', ''Y''])])(0 := [''Y'']))"
    by (simp add: seller_create_stocks_def scenario_defs)
  have p: "seller_create_prices [scenario_record] 0 ((heap_of [(0, [''X'', ''Y''])])(0 := [''Y'']))
      = Inr []"
    by (simp add: seller_create_prices_def scenario_defs)
  have d: "divide_lst [\<lparr>offer_id = ''X'', stock = 100\<rparr>, \<lparr>offer_id = ''Y'', stock = 0\<rparr>] 100
      = Inr [[\<lparr>offer_id = ''X'', stock = 100\<rparr>, \<lparr>offer_id = ''Y'', stock = 0\<rparr>]]"
    by (rule divide_one_chunk) simp_all
  have e: "divide_lst ([] :: ozon_price list) 900 = Inr []"
    by (rule divide_empty) simp
  have "seller_main scenario_world =
     Some \<lparr>stocks_sent = [[\<lparr>offer_id = ''X'', stock = 100\<rparr>, \<lparr>offer_id = ''Y'', stock = 0\<rparr>]],
           prices_sent = [], printed = [], uncaught = None\<rparr>"
    by (simp add: seller_main_def scenario_world_def scenario_offer_ids s p d e always_accepts_def)
  moreover have "seller_create_prices [scenario_record] 0 scenario_heap
       = Inr [\<lparr>auto_action_enabled = ''UNKNOWN'', currency_code = ''RUB'',
               price_offer_id = ''X'', old_price = ''0'', price = ''1000''\<rparr>]"
    by (simp add: seller_create_prices_def scenario_defs re_sub_non_digits_def is_digit_def)
  moreover have "seller_create_prices [scenario_record] 0
         (snd (seller_create_stocks [scenario_record] 0 scenario_heap)) = Inr []"
    using s p by (simp add: scenario_heap_def)
  ultimately show ?thesis by blast
qed

subsection \<open>Exceptions in the orchestrators\<close>

text \<open>
  \<open>seller.main\<close> never lets an exception out. \<open>market.main\<close> lets out exactly the
  exceptions of \<open>download_stock\<close>.
\<close>

lemma seller_main_exit_0: "seller_main w = Some r \<Longrightarrow> uncaught r = None"
  by (auto simp: seller_main_def handler_def split: option.splits sum.splits prod.splits)

lemma market_main_uncaught:
  "market_main w = Some r \<Longrightarrow>
   uncaught r = (case market_download_stock w of Inl e \<Rightarrow> Some e | Inr x \<Rightarrow> None)"
  by (auto simp: market_main_def handler_def split: option.splits sum.splits prod.splits)

text \<open>
  C4 does not hold of \<open>market.main\<close>. When the inventory download raises a connection
  error, \<open>market.main\<close> prints nothing and the exception leaves it uncaught;
  \<open>seller.main\<close>, which downloads inside its \<open>try\<close> block, prints the error and ends
  normally.
\<close>

theorem market_main_download_failure_uncaught:
  "market_main download_fails_market =
     Some \<lparr>stocks_sent = [], prices_sent = [], printed = [], uncaught = Some ConnectionError\<rparr>
   \<and> seller_main download_fails_seller =
     Some \<lparr>stocks_sent = [], prices_sent = [],
           printed = [Connection_message ConnectionError], uncaught = None\<rparr>"
  by (simp add: market_main_def download_fails_market_def seller_main_def
        download_fails_seller_def scenario_offer_ids handler_def)

end
